theory Spec2Isabelle
  imports Main "HOL-Library.Word" "HOL-Library.Sublist" "HOL-Library.AList"
begin

unbundle bit_operations_syntax

section \<open>Python values, exceptions and the byte source\<close>

text \<open>
  The engine of \<^verbatim>\<open>Struct_Reader.py\<close> is dynamically typed: a decoded field is an
  integer, a boolean, a text, a block of bytes, a float, a list, or a nested record
  (a \<^verbatim>\<open>Struct\<close> object in object mode, a dict in mapping mode).  A float is carried by
  the bit pattern of its binary64 representation; no arithmetic is done on it.
\<close>

type_synonym byte = "8 word"

datatype pyval =
    VNone
  | VInt int
  | VBool bool
  | VStr string
  | VBytes "byte list"
  | VFloat "64 word"
  | VList "pyval list"
  | VStruct "(string \<times> pyval) list"
  | VDict "(string \<times> pyval) list"

text \<open>The exceptions raised by the routines themselves and by the builtins they call.\<close>

datatype pyerr =
    EOFError
  | ValueError
  | TypeError
  | IndexError
  | KeyError string
  | StructError
  | UnicodeError
  | LookupError
  | Raised string

text \<open>Truthiness of a value, as \<^verbatim>\<open>x or y\<close> and \<^verbatim>\<open>signed=x\<close> read it.\<close>

fun truthy :: "pyval \<Rightarrow> bool" where
  "truthy VNone = False"
| "truthy (VInt i) = (i \<noteq> 0)"
| "truthy (VBool b) = b"
| "truthy (VStr s) = (s \<noteq> [])"
| "truthy (VBytes bs) = (bs \<noteq> [])"
| "truthy (VFloat w) = (w \<noteq> 0 \<and> w \<noteq> 0x8000000000000000)"
| "truthy (VList xs) = (xs \<noteq> [])"
| "truthy (VStruct kvs) = True"
| "truthy (VDict kvs) = (kvs \<noteq> [])"

definition py_or :: "pyval \<Rightarrow> pyval \<Rightarrow> pyval" where
  "py_or a b = (if truthy a then a else b)"

text \<open>
  An integer argument of a builtin: \<^verbatim>\<open>bool\<close> is a subclass of \<^verbatim>\<open>int\<close>, everything else
  that is not an \<^verbatim>\<open>int\<close> is a \<^verbatim>\<open>TypeError\<close>.
\<close>

fun as_index :: "pyval \<Rightarrow> pyerr + int" where
  "as_index (VInt i) = Inr i"
| "as_index (VBool b) = Inr (if b then 1 else 0)"
| "as_index v = Inl TypeError"

subsection \<open>The in-memory byte source\<close>

text \<open>
  \<^verbatim>\<open>ParseStruct\<close> wraps raw bytes into a \<^verbatim>\<open>BytesIO\<close>: a buffer and a position.  The
  position is never negative and may lie beyond the end of the buffer (after a seek).
\<close>

record BytesIO =
  buf :: "byte list"
  pos :: nat

text \<open>\<^verbatim>\<open>r.read(n)\<close>: up to \<open>n\<close> bytes, fewer only at the end of input; a negative \<open>n\<close>
  reads everything that is left.\<close>

definition read :: "BytesIO \<Rightarrow> int \<Rightarrow> byte list \<times> BytesIO" where
  "read r n =
     (let avail = drop (pos r) (buf r);
          b = (if n < 0 then avail else take (nat n) avail)
      in (b, r\<lparr>pos := pos r + length b\<rparr>))"

text \<open>\<^verbatim>\<open>r.read(x)\<close> for a decoded length \<open>x\<close>: \<^verbatim>\<open>None\<close> reads to the end.\<close>

definition read_dyn :: "BytesIO \<Rightarrow> pyval \<Rightarrow> pyerr + byte list \<times> BytesIO" where
  "read_dyn r x =
     (if x = VNone then Inr (read r (- 1))
      else case as_index x of Inl e \<Rightarrow> Inl e | Inr n \<Rightarrow> Inr (read r n))"

definition tell :: "BytesIO \<Rightarrow> int" where
  "tell r = int (pos r)"

text \<open>\<^verbatim>\<open>r.seek(offset, whence)\<close>: a negative absolute offset and an unknown mode are
  \<^verbatim>\<open>ValueError\<close>s; a relative seek before the start stops at 0.\<close>

definition seek :: "BytesIO \<Rightarrow> int \<Rightarrow> int \<Rightarrow> pyerr + BytesIO" where
  "seek r offset whence =
     (if whence = 0 then
        (if offset < 0 then Inl ValueError else Inr (r\<lparr>pos := nat offset\<rparr>))
      else if whence = 1 then Inr (r\<lparr>pos := nat (max 0 (int (pos r) + offset))\<rparr>)
      else if whence = 2 then Inr (r\<lparr>pos := nat (max 0 (int (length (buf r)) + offset))\<rparr>)
      else Inl ValueError)"

definition seek_dyn :: "BytesIO \<Rightarrow> pyval \<Rightarrow> pyval \<Rightarrow> pyerr + BytesIO" where
  "seek_dyn r x mode =
     (case as_index x of
        Inl e \<Rightarrow> Inl e
      | Inr offset \<Rightarrow> (case as_index mode of Inl e \<Rightarrow> Inl e | Inr w \<Rightarrow> seek r offset w))"

section \<open>The leaf routines of the stream interpreter\<close>

subsection \<open>ParseInt\<close>

text \<open>
  \<^verbatim>\<open>int.from_bytes(b, order, signed=signed)\<close>: the byte order is checked first and must be
  exactly \<^verbatim>\<open>'little'\<close> or \<^verbatim>\<open>'big'\<close>.
\<close>

definition be_value :: "byte list \<Rightarrow> int" where
  "be_value bs = foldl (\<lambda>a b. a * 256 + uint b) 0 bs"

definition from_bytes :: "byte list \<Rightarrow> pyval \<Rightarrow> pyval \<Rightarrow> pyerr + int" where
  "from_bytes b order sg =
     (case order of
        VStr s \<Rightarrow>
          (if s = ''little'' \<or> s = ''big'' then
             (let be = (if s = ''little'' then rev b else b);
                  u = be_value be
              in Inr (if truthy sg \<and> be \<noteq> [] \<and> 128 \<le> uint (hd be)
                      then u - 2 ^ (8 * length be) else u))
           else Inl ValueError)
      | _ \<Rightarrow> Inl TypeError)"

text \<open>\<^verbatim>\<open>_, size, signed, order = params; return int.from_bytes(r.read(size), order, signed=signed)\<close>.
  The bytes are read before \<^verbatim>\<open>from_bytes\<close> looks at the order.\<close>

definition ParseInt :: "BytesIO \<Rightarrow> pyval \<Rightarrow> pyval \<Rightarrow> pyval \<Rightarrow> (pyerr + pyval) \<times> BytesIO" where
  "ParseInt r sz sg order =
     (case read_dyn r sz of
        Inl e \<Rightarrow> (Inl e, r)
      | Inr (b, r') \<Rightarrow>
          (case from_bytes b order sg of
             Inl e \<Rightarrow> (Inl e, r')
           | Inr i \<Rightarrow> (Inr (VInt i), r')))"

subsection \<open>ParseUvarint and ParseBool\<close>

text \<open>
  \<^verbatim>\<open>
  value, shift = 0, 0
  while True:
      b = r.read(1)
      if not b: raise EOFError
      byte = b[0]
      value |= (byte & 0x7F) << shift
      if not (byte & 0x80): return value
      shift += 7
  \<close>
  The loop ends because every round consumes one byte of a finite buffer.
\<close>

lemma read_one:
  "read r 1 =
     (if pos r < length (buf r) then ([buf r ! pos r], r\<lparr>pos := Suc (pos r)\<rparr>) else ([], r))"
proof (cases "pos r < length (buf r)")
  case True
  then have "take (Suc 0) (drop (pos r) (buf r)) = [buf r ! pos r]"
    by (simp add: hd_drop_conv_nth take_Suc)
  with True show ?thesis by (simp add: read_def)
next
  case False
  then show ?thesis by (simp add: read_def)
qed

function Uvarint_loop :: "BytesIO \<Rightarrow> int \<Rightarrow> nat \<Rightarrow> (pyerr + pyval) \<times> BytesIO" where
  "Uvarint_loop r val shift =
     (case read r 1 of
        ([], r') \<Rightarrow> (Inl EOFError, r')
      | (b # bs, r') \<Rightarrow>
          (let byte = uint b;
               val' = val OR push_bit shift (byte AND 0x7F)
           in if byte AND 0x80 = 0 then (Inr (VInt val'), r')
              else Uvarint_loop r' val' (shift + 7)))"
  by pat_completeness auto
termination
  by (relation "measure (\<lambda>(r, v, s). length (buf r) - pos r)")
     (auto simp: read_one split: if_splits)

declare Uvarint_loop.simps [simp del]

definition ParseUvarint :: "BytesIO \<Rightarrow> (pyerr + pyval) \<times> BytesIO" where
  "ParseUvarint r = Uvarint_loop r 0 0"

definition ParseBool :: "BytesIO \<Rightarrow> (pyerr + pyval) \<times> BytesIO" where
  "ParseBool r =
     (case read r 1 of
        ([], r') \<Rightarrow> (Inl EOFError, r')
      | (b # bs, r') \<Rightarrow> (Inr (VBool (uint b \<noteq> 0)), r'))"

subsection \<open>The reference LEB128 encoder\<close>

text \<open>
  The independent reference encoder the specification compares the decoder with: seven
  data bits per byte, least significant group first, the high bit set on every byte but
  the last.  It follows the specification's words, not the source (which has no encoder).
\<close>

function leb128_reference :: "nat \<Rightarrow> byte list" where
  "leb128_reference n =
     (if n < 128 then [of_nat n]
      else of_nat (n mod 128 + 128) # leb128_reference (n div 128))"
  by pat_completeness auto
termination
  by (relation "measure id") auto

declare leb128_reference.simps [simp del]

section \<open>Descriptors and the builder surface\<close>

text \<open>The seventeen type tags (\<^verbatim>\<open>INT = 1\<close> ... \<^verbatim>\<open>BOOL = 17\<close>).\<close>

datatype tag =
    T_INT | T_FLOAT | T_UVARINT | T_STR | T_BYTES | T_BYTES2 | T_LIST | T_STRUCT | T_CONST
  | T_VAR | T_MATCH | T_FUNC | T_SEEK | T_POS | T_PEEK | T_GROUP | T_BOOL

text \<open>
  A transform callable of a derived field is opaque: a function from its positional
  arguments to a value or an exception.
\<close>

type_synonym callable = "pyval list \<Rightarrow> pyerr + pyval"

text \<open>
  What \<^verbatim>\<open>CompileType\<close> may meet: a \<^verbatim>\<open>BaseType\<close> with the slots its \<^verbatim>\<open>__init__\<close> sets for its
  tag, a plain value (\<open>D_lit\<close>), or a class (\<open>D_class\<close>, the items of its \<^verbatim>\<open>__dict__\<close> in
  order).  The slots of an integer and of a float are \<open>Bits\<close>, \<open>Order\<close>, \<open>Sign\<close>.
\<close>

datatype descr =
    D_INT pyval pyval pyval
  | D_FLOAT pyval pyval pyval
  | D_UVARINT
  | D_POS
  | D_BOOL
  | D_SEEK descr pyval
  | D_PEEK descr
  | D_GROUP "descr list"
  | D_FUNC callable descr
  | D_MATCH descr "descr list"
  | D_BYTES descr
  | D_STR descr pyval
  | D_LIST descr descr
  | D_VAR string
  | D_lit pyval
  | D_class "(string \<times> descr) list"

record TypeFactory =
  Type :: "tag option"
  Params :: "pyval list"

definition startswith :: "string \<Rightarrow> string \<Rightarrow> bool" where
  "startswith s p = prefix p s"

definition endswith :: "string \<Rightarrow> string \<Rightarrow> bool" where
  "endswith s p = prefix (rev p) (rev s)"

text \<open>\<^verbatim>\<open>_TypeFactory.__init__\<close>, branch by branch; an unknown name sets no \<^verbatim>\<open>Type\<close>.\<close>

definition TypeFactory_init :: "string \<Rightarrow> TypeFactory" where
  "TypeFactory_init tName =
     (if startswith tName ''Int'' \<or> startswith tName ''UInt'' then
        \<lparr>Type = Some T_INT,
         Params = [if endswith tName ''BE'' then VStr ''big''
                   else if endswith tName ''LE'' then VStr ''Little'' else VNone,
                   VBool (startswith tName ''Int'')]\<rparr>
      else if startswith tName ''Float'' then
        \<lparr>Type = Some T_FLOAT,
         Params = [if endswith tName ''BE'' then VStr ''>''
                   else if endswith tName ''LE'' then VStr ''<'' else VNone]\<rparr>
      else if tName = ''Str'' then \<lparr>Type = Some T_STR, Params = []\<rparr>
      else if tName = ''Bytes'' then \<lparr>Type = Some T_BYTES, Params = []\<rparr>
      else if tName = ''List'' then \<lparr>Type = Some T_LIST, Params = []\<rparr>
      else if tName = ''Match'' then \<lparr>Type = Some T_MATCH, Params = []\<rparr>
      else if tName = ''Func'' then \<lparr>Type = Some T_FUNC, Params = []\<rparr>
      else if tName = ''Group'' then \<lparr>Type = Some T_GROUP, Params = []\<rparr>
      else if tName = ''Seek'' then \<lparr>Type = Some T_SEEK, Params = []\<rparr>
      else if tName = ''Peek'' then \<lparr>Type = Some T_PEEK, Params = []\<rparr>
      else if tName = ''Var'' then \<lparr>Type = Some T_VAR, Params = []\<rparr>
      else \<lparr>Type = None, Params = []\<rparr>)"

text \<open>
  \<^verbatim>\<open>BaseType.__init__\<close> for the two sized tags, where \<^verbatim>\<open>value\<close> is a tuple:
  \<^verbatim>\<open>self.Bits, self.Order, self.Sign = value\<close> needs exactly three items and raises
  \<^verbatim>\<open>ValueError\<close> otherwise.  The branches of the other tags take nested descriptors and
  callables and are not embedded: the result is \<open>None\<close> there.
\<close>

definition BaseType_init :: "tag option \<Rightarrow> pyval list \<Rightarrow> (pyerr + descr) option" where
  "BaseType_init typeIndex v =
     (if typeIndex = Some T_INT then
        Some (case v of [b, ord, sg] \<Rightarrow> Inr (D_INT b ord sg) | _ \<Rightarrow> Inl ValueError)
      else if typeIndex = Some T_FLOAT then
        Some (case v of [b, ord, sg] \<Rightarrow> Inr (D_FLOAT b ord sg) | _ \<Rightarrow> Inl ValueError)
      else None)"

text \<open>
  \<^verbatim>\<open>_TypeFactory.__getitem__\<close> for an integer argument, the bit-width of a sized builder:
  \<^verbatim>\<open>if (p := self.Params): args = (args // 8, *p)\<close>, then \<^verbatim>\<open>BaseType(self.Type, args)\<close>.
  Python's \<^verbatim>\<open>//\<close> rounds towards minus infinity, as \<open>div\<close> does.  A factory without
  parameters hands \<^verbatim>\<open>args\<close> to a branch that is not embedded.
\<close>

definition TypeFactory_getitem :: "TypeFactory \<Rightarrow> int \<Rightarrow> (pyerr + descr) option" where
  "TypeFactory_getitem f args =
     (if Params f \<noteq> [] then BaseType_init (Type f) (VInt (args div 8) # Params f)
      else None)"

section \<open>The schema compiler\<close>

text \<open>
  A canonical node is the tuple \<^verbatim>\<open>CompileType\<close> returns, led by its tag; an integer and a
  float carry \<open>(Bits, Sign, Order)\<close> in this order.
\<close>

datatype node =
    N_INT pyval pyval pyval
  | N_FLOAT pyval pyval pyval
  | N_UVARINT
  | N_STR node pyval
  | N_BYTES node
  | N_BYTES2 node
  | N_LIST node node
  | N_STRUCT "(string \<times> node) list"
  | N_CONST pyval
  | N_VAR string
  | N_MATCH node "node list"
  | N_FUNC callable node
  | N_SEEK node pyval
  | N_POS
  | N_PEEK node
  | N_GROUP "node list"
  | N_BOOL

definition dunder :: "string \<Rightarrow> bool" where
  "dunder n = (startswith n ''__'' \<and> endswith n ''__'')"

text \<open>\<^verbatim>\<open>isinstance(v, (int, str))\<close> for a plain value.\<close>

fun is_int_or_str :: "pyval \<Rightarrow> bool" where
  "is_int_or_str (VInt i) = True"
| "is_int_or_str (VBool b) = True"
| "is_int_or_str (VStr s) = True"
| "is_int_or_str v = False"

text \<open>
  \<^verbatim>\<open>CompileType(v, order, order2, encoding, bytesToHex)\<close> and \<^verbatim>\<open>CompileStruct\<close>, which call
  each other; \<open>CompileTypes\<close> is the list comprehension over \<^verbatim>\<open>v.Params\<close> and
  \<^verbatim>\<open>v.Results\<close>, \<open>CompileItems\<close> the dict comprehension of \<^verbatim>\<open>CompileStruct\<close> (it skips
  the dunder names).  A class inside a schema goes through \<^verbatim>\<open>CompileStruct\<close> again, which
  derives the float order when it is \<^verbatim>\<open>None\<close>.
\<close>

fun CompileType :: "descr \<Rightarrow> pyval \<Rightarrow> pyval \<Rightarrow> pyval \<Rightarrow> bool \<Rightarrow> pyerr + node"
  and CompileTypes :: "descr list \<Rightarrow> pyval \<Rightarrow> pyval \<Rightarrow> pyval \<Rightarrow> bool \<Rightarrow> pyerr + node list"
  and CompileItems ::
    "(string \<times> descr) list \<Rightarrow> pyval \<Rightarrow> pyval \<Rightarrow> pyval \<Rightarrow> bool \<Rightarrow> pyerr + (string \<times> node) list"
where
  "CompileType (D_VAR n) order order2 encoding bytesToHex = Inr (N_VAR n)"
| "CompileType (D_INT bits ord sg) order order2 encoding bytesToHex =
     Inr (N_INT bits sg (py_or ord order))"
| "CompileType (D_FLOAT bits ord sg) order order2 encoding bytesToHex =
     Inr (N_FLOAT bits sg (py_or ord order2))"
| "CompileType D_UVARINT order order2 encoding bytesToHex = Inr N_UVARINT"
| "CompileType D_POS order order2 encoding bytesToHex = Inr N_POS"
| "CompileType D_BOOL order order2 encoding bytesToHex = Inr N_BOOL"
| "CompileType (D_SEEK off mode) order order2 encoding bytesToHex =
     (case CompileType off order order2 encoding bytesToHex of
        Inl e \<Rightarrow> Inl e | Inr p \<Rightarrow> Inr (N_SEEK p mode))"
| "CompileType (D_PEEK v) order order2 encoding bytesToHex =
     (case CompileType v order order2 encoding bytesToHex of
        Inl e \<Rightarrow> Inl e | Inr p \<Rightarrow> Inr (N_PEEK p))"
| "CompileType (D_GROUP ps) order order2 encoding bytesToHex =
     (case CompileTypes ps order order2 encoding bytesToHex of
        Inl e \<Rightarrow> Inl e | Inr qs \<Rightarrow> Inr (N_GROUP qs))"
| "CompileType (D_FUNC f ps) order order2 encoding bytesToHex =
     (case CompileType ps order order2 encoding bytesToHex of
        Inl e \<Rightarrow> Inl e | Inr q \<Rightarrow> Inr (N_FUNC f q))"
| "CompileType (D_MATCH bf results) order order2 encoding bytesToHex =
     (case CompileType bf order order2 encoding bytesToHex of
        Inl e \<Rightarrow> Inl e
      | Inr c \<Rightarrow>
          (case CompileTypes results order order2 encoding bytesToHex of
             Inl e \<Rightarrow> Inl e | Inr qs \<Rightarrow> Inr (N_MATCH c qs)))"
| "CompileType (D_BYTES len) order order2 encoding bytesToHex =
     (case CompileType len order order2 encoding bytesToHex of
        Inl e \<Rightarrow> Inl e
      | Inr l \<Rightarrow> Inr (if bytesToHex then N_BYTES2 l else N_BYTES l))"
| "CompileType (D_STR len enc) order order2 encoding bytesToHex =
     (case CompileType len order order2 encoding bytesToHex of
        Inl e \<Rightarrow> Inl e | Inr l \<Rightarrow> Inr (N_STR l (py_or enc encoding)))"
| "CompileType (D_LIST cnt v) order order2 encoding bytesToHex =
     (case CompileType cnt order order2 encoding bytesToHex of
        Inl e \<Rightarrow> Inl e
      | Inr c \<Rightarrow>
          (case CompileType v order order2 encoding bytesToHex of
             Inl e \<Rightarrow> Inl e | Inr q \<Rightarrow> Inr (N_LIST c q)))"
| "CompileType (D_lit v) order order2 encoding bytesToHex =
     (if is_int_or_str v then Inr (N_CONST v) else Inl TypeError)"
| "CompileType (D_class items) order order2 encoding bytesToHex =
     (case CompileItems items order
             (if order2 = VNone then (if order = VStr ''big'' then VStr ''>'' else VStr ''<'')
              else order2)
             encoding bytesToHex of
        Inl e \<Rightarrow> Inl e | Inr s \<Rightarrow> Inr (N_STRUCT s))"
| "CompileTypes [] order order2 encoding bytesToHex = Inr []"
| "CompileTypes (v # vs) order order2 encoding bytesToHex =
     (case CompileType v order order2 encoding bytesToHex of
        Inl e \<Rightarrow> Inl e
      | Inr q \<Rightarrow>
          (case CompileTypes vs order order2 encoding bytesToHex of
             Inl e \<Rightarrow> Inl e | Inr qs \<Rightarrow> Inr (q # qs)))"
| "CompileItems [] order order2 encoding bytesToHex = Inr []"
| "CompileItems ((n, v) # rest) order order2 encoding bytesToHex =
     (if dunder n then CompileItems rest order order2 encoding bytesToHex
      else case CompileType v order order2 encoding bytesToHex of
        Inl e \<Rightarrow> Inl e
      | Inr q \<Rightarrow>
          (case CompileItems rest order order2 encoding bytesToHex of
             Inl e \<Rightarrow> Inl e | Inr qs \<Rightarrow> Inr ((n, q) # qs)))"

text \<open>\<^verbatim>\<open>CompileStruct(cls, order, encoding, order2, bytesToHex)\<close>.\<close>

definition CompileStruct ::
  "(string \<times> descr) list \<Rightarrow> pyval \<Rightarrow> pyval \<Rightarrow> pyval \<Rightarrow> bool \<Rightarrow> pyerr + (string \<times> node) list" where
  "CompileStruct items order encoding order2 bytesToHex =
     CompileItems items order
       (if order2 = VNone then (if order = VStr ''big'' then VStr ''>'' else VStr ''<'')
        else order2)
       encoding bytesToHex"

section \<open>The stream interpreter\<close>

text \<open>
  An exception that leaves a routine is a builtin's or the routine's own (\<open>Err\<close>), or the
  \<^verbatim>\<open>RuntimeError(v)\<close> that \<^verbatim>\<open>Parse\<close> raises inside its \<^verbatim>\<open>except:\<close> block: it carries the
  canonical node of the failing field, and Python chains the exception being handled to
  it (the second argument).
\<close>

datatype exn =
    Err pyerr
  | RuntimeError node exn

text \<open>
  The Binding Context \<^verbatim>\<open>self._Ctx\<close> is a dict from field names to decoded values.  A
  routine returns a value or raises, and leaves the byte source and the context as they
  are at that moment: both are threaded through, also on failure.
\<close>

type_synonym ctx = "string \<rightharpoonup> pyval"

type_synonym 'a result = "(exn + 'a) \<times> BytesIO \<times> ctx"

text \<open>
  The singleton whose \<^verbatim>\<open>Parse\<close> runs (\<^verbatim>\<open>StructDictCls\<close> when \<open>ReturnDict\<close>, else
  \<^verbatim>\<open>StructObjCls\<close>), with the two builtins the routines call on decoded data:
  \<open>UnPack order sign b\<close> stands for \<^verbatim>\<open>struct.unpack_from(f'{order}{sign}', b)[0]\<close> and
  \<open>bytes_decode b enc\<close> for \<^verbatim>\<open>b.decode(enc)\<close>.
\<close>

record cls =
  UnPack :: "pyval \<Rightarrow> pyval \<Rightarrow> byte list \<Rightarrow> pyerr + pyval"
  bytes_decode :: "byte list \<Rightarrow> pyval \<Rightarrow> pyerr + pyval"
  ReturnDict :: bool

definition leaf :: "(pyerr + pyval) \<times> BytesIO \<Rightarrow> ctx \<Rightarrow> pyval result" where
  "leaf x c = (case x of (Inl e, r') \<Rightarrow> (Inl (Err e), r', c) | (Inr v, r') \<Rightarrow> (Inr v, r', c))"

text \<open>\<^verbatim>\<open>UnPack(f'{order}{sign}', r.read(size))[0]\<close>.\<close>

definition ParseFloat ::
  "cls \<Rightarrow> BytesIO \<Rightarrow> pyval \<Rightarrow> pyval \<Rightarrow> pyval \<Rightarrow> (pyerr + pyval) \<times> BytesIO" where
  "ParseFloat E r sz sg order =
     (case read_dyn r sz of
        Inl e \<Rightarrow> (Inl e, r)
      | Inr (b, r') \<Rightarrow>
          (case UnPack E order sg b of
             Inl e \<Rightarrow> (Inl e, r')
           | Inr v \<Rightarrow> (Inr v, r')))"

text \<open>\<^verbatim>\<open>b.hex()\<close>: two lowercase digits per byte.\<close>

definition hex_digit :: "nat \<Rightarrow> char" where
  "hex_digit n = ''0123456789abcdef'' ! n"

definition hex :: "byte list \<Rightarrow> string" where
  "hex b = concat (map (\<lambda>x. [hex_digit (unat x div 16), hex_digit (unat x mod 16)]) b)"

text \<open>\<^verbatim>\<open>xs[i]\<close> on a list: a negative index counts from the end.\<close>

definition getitem :: "'a list \<Rightarrow> pyval \<Rightarrow> pyerr + 'a" where
  "getitem xs x =
     (case as_index x of
        Inl e \<Rightarrow> Inl e
      | Inr i \<Rightarrow>
          (if 0 \<le> i \<and> i < int (length xs) then Inr (xs ! nat i)
           else if i < 0 \<and> - int (length xs) \<le> i then Inr (xs ! nat (int (length xs) + i))
           else Inl IndexError))"

text \<open>\<^verbatim>\<open>range(loop)\<close>: the number of rounds; none for a negative bound.\<close>

definition range_len :: "pyval \<Rightarrow> pyerr + nat" where
  "range_len x =
     (case as_index x of Inl e \<Rightarrow> Inl e | Inr i \<Rightarrow> Inr (if i \<le> 0 then 0 else nat i))"

text \<open>\<^verbatim>\<open>func(*x)\<close>: the positional arguments an iterable unpacks to.\<close>

fun star_args :: "pyval \<Rightarrow> pyerr + pyval list" where
  "star_args (VList xs) = Inr xs"
| "star_args (VStr s) = Inr (map (\<lambda>ch. VStr [ch]) s)"
| "star_args (VBytes b) = Inr (map (\<lambda>x. VInt (uint x)) b)"
| "star_args (VDict kvs) = Inr (map (\<lambda>kv. VStr (fst kv)) kvs)"
| "star_args v = Inl TypeError"

text \<open>The fresh result of \<^verbatim>\<open>Parse\<close>: a \<^verbatim>\<open>Struct()\<close> object or a dict, by the class.\<close>

definition new_obj :: "cls \<Rightarrow> (string \<times> pyval) list \<Rightarrow> pyval" where
  "new_obj E kvs = (if ReturnDict E then VDict kvs else VStruct kvs)"

lemma getitem_size:
  "getitem xs x = Inr (d::node) \<Longrightarrow> size d < Suc (size_list size xs)"
proof -
  assume "getitem xs x = Inr d"
  then have "d \<in> set xs"
    by (auto simp: getitem_def split: sum.splits if_splits)
  then show ?thesis
    by (simp add: less_Suc_eq_le size_list_estimation')
qed

text \<open>
  \<open>dispatch E v r c\<close> is \<^verbatim>\<open>self.Get(v[0])(r, v)\<close>: the routine of the node's tag, applied.
  \<open>Parse\<close> is the loop over \<^verbatim>\<open>struct.items()\<close> with the result built so far,
  \<open>ParseGroup_items\<close> the comprehension of \<^verbatim>\<open>ParseGroup\<close> and \<open>ParseList_items\<close> that of
  \<^verbatim>\<open>ParseList\<close> with the rounds that are left.  The node type has exactly the tags of
  \<^verbatim>\<open>FuncDict\<close>, so the lookup never yields \<^verbatim>\<open>None\<close>.
\<close>

function (sequential)
  dispatch :: "cls \<Rightarrow> node \<Rightarrow> BytesIO \<Rightarrow> ctx \<Rightarrow> pyval result"
  and Parse :: "cls \<Rightarrow> (string \<times> node) list \<Rightarrow> (string \<times> pyval) list \<Rightarrow> BytesIO \<Rightarrow> ctx \<Rightarrow> pyval result"
  and ParseGroup_items :: "cls \<Rightarrow> node list \<Rightarrow> BytesIO \<Rightarrow> ctx \<Rightarrow> (pyval list) result"
  and ParseList_items :: "cls \<Rightarrow> nat \<Rightarrow> node \<Rightarrow> BytesIO \<Rightarrow> ctx \<Rightarrow> (pyval list) result"
where
  "dispatch E (N_INT sz sg order) r c = leaf (ParseInt r sz sg order) c"
| "dispatch E (N_FLOAT sz sg order) r c = leaf (ParseFloat E r sz sg order) c"
| "dispatch E N_UVARINT r c = leaf (ParseUvarint r) c"
| "dispatch E N_BOOL r c = leaf (ParseBool r) c"
| "dispatch E N_POS r c = (Inr (VInt (tell r)), r, c)"
| "dispatch E (N_CONST number) r c = (Inr number, r, c)"
| "dispatch E (N_VAR n) r c =
     (case c n of None \<Rightarrow> (Inl (Err (KeyError n)), r, c) | Some v \<Rightarrow> (Inr v, r, c))"
| "dispatch E (N_STR lenParams encoding) r c =
     (case dispatch E lenParams r c of
        (Inl e, r', c') \<Rightarrow> (Inl e, r', c')
      | (Inr n, r', c') \<Rightarrow>
          (case read_dyn r' n of
             Inl e \<Rightarrow> (Inl (Err e), r', c')
           | Inr (b, r'') \<Rightarrow>
               (case bytes_decode E b encoding of
                  Inl e \<Rightarrow> (Inl (Err e), r'', c')
                | Inr s \<Rightarrow> (Inr s, r'', c'))))"
| "dispatch E (N_BYTES lenParams) r c =
     (case dispatch E lenParams r c of
        (Inl e, r', c') \<Rightarrow> (Inl e, r', c')
      | (Inr n, r', c') \<Rightarrow>
          (case read_dyn r' n of
             Inl e \<Rightarrow> (Inl (Err e), r', c')
           | Inr (b, r'') \<Rightarrow> (Inr (VBytes b), r'', c')))"
| "dispatch E (N_BYTES2 lenParams) r c =
     (case dispatch E lenParams r c of
        (Inl e, r', c') \<Rightarrow> (Inl e, r', c')
      | (Inr n, r', c') \<Rightarrow>
          (case read_dyn r' n of
             Inl e \<Rightarrow> (Inl (Err e), r', c')
           | Inr (b, r'') \<Rightarrow> (Inr (VStr (hex b)), r'', c')))"
| "dispatch E (N_LIST cnt v) r c =
     (case dispatch E cnt r c of
        (Inl e, r', c') \<Rightarrow> (Inl e, r', c')
      | (Inr loop, r', c') \<Rightarrow>
          (case range_len loop of
             Inl e \<Rightarrow> (Inl (Err e), r', c')
           | Inr k \<Rightarrow>
               (case ParseList_items E k v r' c' of
                  (Inl e, r'', c'') \<Rightarrow> (Inl e, r'', c'')
                | (Inr xs, r'', c'') \<Rightarrow> (Inr (VList xs), r'', c''))))"
| "dispatch E (N_STRUCT struct) r c = Parse E struct [] r c"
| "dispatch E (N_GROUP cParams) r c =
     (case ParseGroup_items E cParams r c of
        (Inl e, r', c') \<Rightarrow> (Inl e, r', c')
      | (Inr xs, r', c') \<Rightarrow> (Inr (VList xs), r', c'))"
| "dispatch E (N_FUNC func cParams) r c =
     (case dispatch E cParams r c of
        (Inl e, r', c') \<Rightarrow> (Inl e, r', c')
      | (Inr a, r', c') \<Rightarrow>
          (case star_args a of
             Inl e \<Rightarrow> (Inl (Err e), r', c')
           | Inr args \<Rightarrow>
               (case func args of
                  Inl e \<Rightarrow> (Inl (Err e), r', c')
                | Inr v \<Rightarrow> (Inr v, r', c'))))"
| "dispatch E (N_MATCH cond cresults) r c =
     (case dispatch E cond r c of
        (Inl e, r', c') \<Rightarrow> (Inl e, r', c')
      | (Inr i, r', c') \<Rightarrow>
          (case getitem cresults i of
             Inl e \<Rightarrow> (Inl (Err e), r', c')
           | Inr res \<Rightarrow> dispatch E res r' c'))"
| "dispatch E (N_SEEK p mode) r c =
     (case dispatch E p r c of
        (Inl e, r', c') \<Rightarrow> (Inl e, r', c')
      | (Inr off, r', c') \<Rightarrow>
          (case seek_dyn r' off mode of
             Inl e \<Rightarrow> (Inl (Err e), r', c')
           | Inr r'' \<Rightarrow> (Inr (VInt (- 1)), r'', c')))"
| "dispatch E (N_PEEK v) r c =
     (let p = tell r in
      case dispatch E v r c of
        (Inl e, r', c') \<Rightarrow> (Inl e, r', c')
      | (Inr vv, r', c') \<Rightarrow>
          (case seek r' p 0 of
             Inl e \<Rightarrow> (Inl (Err e), r', c')
           | Inr r'' \<Rightarrow> (Inr vv, r'', c')))"
| "Parse E [] obj r c = (Inr (new_obj E obj), r, c)"
| "Parse E ((n, v) # rest) obj r c =
     (case dispatch E v r c of
        (Inl e, r', c') \<Rightarrow> (Inl (RuntimeError v e), r', c')
      | (Inr vv, r', c') \<Rightarrow> Parse E rest (AList.update n vv obj) r' (c'(n \<mapsto> vv)))"
| "ParseGroup_items E [] r c = (Inr [], r, c)"
| "ParseGroup_items E (i # is) r c =
     (case dispatch E i r c of
        (Inl e, r', c') \<Rightarrow> (Inl e, r', c')
      | (Inr x, r', c') \<Rightarrow>
          (case ParseGroup_items E is r' c' of
             (Inl e, r'', c'') \<Rightarrow> (Inl e, r'', c'')
           | (Inr xs, r'', c'') \<Rightarrow> (Inr (x # xs), r'', c'')))"
| "ParseList_items E 0 v r c = (Inr [], r, c)"
| "ParseList_items E (Suc k) v r c =
     (case dispatch E v r c of
        (Inl e, r', c') \<Rightarrow> (Inl e, r', c')
      | (Inr x, r', c') \<Rightarrow>
          (case ParseList_items E k v r' c' of
             (Inl e, r'', c'') \<Rightarrow> (Inl e, r'', c'')
           | (Inr xs, r'', c'') \<Rightarrow> (Inr (x # xs), r'', c'')))"
  by pat_completeness auto
termination
  apply (relation "inv_image (less_than <*lex*> less_than)
    (\<lambda>x. case x of
       Inl (Inl (E, v, r, c)) \<Rightarrow> (2 * size v, 0)
     | Inl (Inr (E, struct, obj, r, c)) \<Rightarrow> (2 * size_list (size_prod (\<lambda>x. 0) size) struct + 1, 0)
     | Inr (Inl (E, ps, r, c)) \<Rightarrow> (2 * size_list size ps + 1, 0)
     | Inr (Inr (E, k, v, r, c)) \<Rightarrow> (2 * size v + 1, k))")
  apply (auto dest: getitem_size)
  done

section \<open>The entry point\<close>

text \<open>
  \<^verbatim>\<open>ParseStruct(struct, r, ReturnDict, order, encoding, order2, bytesToHex)\<close>: raw bytes
  are wrapped into a \<^verbatim>\<open>BytesIO\<close>, a class is compiled first, and the context of the chosen
  singleton is assigned \<^verbatim>\<open>{}\<close> before and after the call of its \<^verbatim>\<open>Parse\<close>:
  \<^verbatim>\<open>
  cls._Ctx = {}
  v = func(struct, r)
  cls._Ctx = {}
  return v
  \<close>
  The last argument is \<^verbatim>\<open>cls._Ctx\<close> as the previous call left it; the result holds it as
  this call leaves it.  An exception of \<^verbatim>\<open>func\<close> leaves the function at once.
\<close>

datatype schema = Class "(string \<times> descr) list" | Compiled "(string \<times> node) list"

datatype source = Raw "byte list" | Reader BytesIO

definition ParseStruct ::
  "cls \<Rightarrow> schema \<Rightarrow> source \<Rightarrow> pyval \<Rightarrow> pyval \<Rightarrow> pyval \<Rightarrow> bool \<Rightarrow> ctx \<Rightarrow> pyval result" where
  "ParseStruct E struct src order encoding order2 bytesToHex ctx0 =
     (let r = (case src of Raw b \<Rightarrow> \<lparr>buf = b, pos = 0\<rparr> | Reader x \<Rightarrow> x) in
      case (case struct of
              Class items \<Rightarrow>
                CompileStruct items order encoding
                  (if order2 = VNone then (if order = VStr ''big'' then VStr ''>'' else VStr ''<'')
                   else order2)
                  bytesToHex
            | Compiled s \<Rightarrow> Inr s) of
        Inl e \<Rightarrow> (Inl (Err e), r, ctx0)
      | Inr s \<Rightarrow>
          (case Parse E s [] r Map.empty of
             (Inl e, r', c') \<Rightarrow> (Inl e, r', c')
           | (Inr v, r', c') \<Rightarrow> (Inr v, r', Map.empty)))"

text \<open>
  An instance for the worked examples below, which decode neither floats nor text: the
  object-mode singleton, with builtins that are never reached there.
\<close>

definition example_cls :: cls where
  "example_cls =
     \<lparr>UnPack = (\<lambda>order sg b. Inl StructError),
      bytes_decode = (\<lambda>b enc. Inl LookupError),
      ReturnDict = False\<rparr>"

section \<open>The bindings of a call\<close>

text \<open>
  To state what happens to the Binding Context, the bindings \<^verbatim>\<open>ctx[n] = vv\<close> of a call are
  listed in the order in which they are made.  This is a notion of the specification,
  defined on the structure of the schema and not read off the context: a field binds its
  name once its own routine has returned, after whatever that routine bound itself; a
  routine that raises binds nothing more.  Each part of a node is run from the context
  that consists of the initial one and every binding listed before it (\<open>bind_all\<close>, a later
  binding over an earlier one); the interpreter is asked only for the values and for the
  position of the source.
\<close>

definition bind_all :: "(string \<times> pyval) list \<Rightarrow> ctx \<Rightarrow> ctx" where
  "bind_all bs c = foldl (\<lambda>m kv. m(fst kv \<mapsto> snd kv)) c bs"

function (sequential)
  bindings :: "cls \<Rightarrow> node \<Rightarrow> BytesIO \<Rightarrow> ctx \<Rightarrow> (string \<times> pyval) list"
  and Parse_bindings :: "cls \<Rightarrow> (string \<times> node) list \<Rightarrow> BytesIO \<Rightarrow> ctx \<Rightarrow> (string \<times> pyval) list"
  and Group_bindings :: "cls \<Rightarrow> node list \<Rightarrow> BytesIO \<Rightarrow> ctx \<Rightarrow> (string \<times> pyval) list"
  and List_bindings :: "cls \<Rightarrow> nat \<Rightarrow> node \<Rightarrow> BytesIO \<Rightarrow> ctx \<Rightarrow> (string \<times> pyval) list"
where
  "bindings E (N_STR lenParams encoding) r c = bindings E lenParams r c"
| "bindings E (N_BYTES lenParams) r c = bindings E lenParams r c"
| "bindings E (N_BYTES2 lenParams) r c = bindings E lenParams r c"
| "bindings E (N_LIST cnt v) r c =
     (let bs = bindings E cnt r c in
      bs @ (case dispatch E cnt r c of
              (Inl e, r', c') \<Rightarrow> []
            | (Inr loop, r', c') \<Rightarrow>
                (case range_len loop of
                   Inl e \<Rightarrow> []
                 | Inr k \<Rightarrow> List_bindings E k v r' (bind_all bs c))))"
| "bindings E (N_STRUCT struct) r c = Parse_bindings E struct r c"
| "bindings E (N_GROUP cParams) r c = Group_bindings E cParams r c"
| "bindings E (N_FUNC func cParams) r c = bindings E cParams r c"
| "bindings E (N_MATCH cond cresults) r c =
     (let bs = bindings E cond r c in
      bs @ (case dispatch E cond r c of
              (Inl e, r', c') \<Rightarrow> []
            | (Inr i, r', c') \<Rightarrow>
                (case getitem cresults i of
                   Inl e \<Rightarrow> []
                 | Inr res \<Rightarrow> bindings E res r' (bind_all bs c))))"
| "bindings E (N_SEEK p mode) r c = bindings E p r c"
| "bindings E (N_PEEK v) r c = bindings E v r c"
| "bindings E v r c = []"
| "Parse_bindings E [] r c = []"
| "Parse_bindings E ((n, v) # rest) r c =
     (let bs = bindings E v r c in
      bs @ (case dispatch E v r c of
              (Inl e, r', c') \<Rightarrow> []
            | (Inr vv, r', c') \<Rightarrow>
                (n, vv) # Parse_bindings E rest r' ((bind_all bs c)(n \<mapsto> vv))))"
| "Group_bindings E [] r c = []"
| "Group_bindings E (i # is) r c =
     (let bs = bindings E i r c in
      bs @ (case dispatch E i r c of
              (Inl e, r', c') \<Rightarrow> []
            | (Inr x, r', c') \<Rightarrow> Group_bindings E is r' (bind_all bs c)))"
| "List_bindings E 0 v r c = []"
| "List_bindings E (Suc k) v r c =
     (let bs = bindings E v r c in
      bs @ (case dispatch E v r c of
              (Inl e, r', c') \<Rightarrow> []
            | (Inr x, r', c') \<Rightarrow> List_bindings E k v r' (bind_all bs c)))"
  by pat_completeness auto
termination
  apply (relation "inv_image (less_than <*lex*> less_than)
    (\<lambda>x. case x of
       Inl (Inl (E, v, r, c)) \<Rightarrow> (2 * size v, 0)
     | Inl (Inr (E, struct, r, c)) \<Rightarrow> (2 * size_list (size_prod (\<lambda>x. 0) size) struct + 1, 0)
     | Inr (Inl (E, ps, r, c)) \<Rightarrow> (2 * size_list size ps + 1, 0)
     | Inr (Inr (E, k, v, r, c)) \<Rightarrow> (2 * size v + 1, k))")
  apply (auto dest: getitem_size)
  done

text \<open>
  \<open>binds A v\<close>: some record inside \<open>v\<close> (at any depth) has a field named \<open>A\<close>.
  \<open>subst A x v\<close>: \<open>v\<close> with every Back-reference to \<open>A\<close> replaced by the constant \<open>x\<close>; an
  exception that carries a node is relabelled accordingly (\<open>relabel\<close>), a result is left as
  it is.
\<close>

fun binds :: "string \<Rightarrow> node \<Rightarrow> bool"
  and binds_list :: "string \<Rightarrow> node list \<Rightarrow> bool"
  and binds_fields :: "string \<Rightarrow> (string \<times> node) list \<Rightarrow> bool"
where
  "binds A (N_STR lenParams encoding) = binds A lenParams"
| "binds A (N_BYTES lenParams) = binds A lenParams"
| "binds A (N_BYTES2 lenParams) = binds A lenParams"
| "binds A (N_LIST cnt v) = (binds A cnt \<or> binds A v)"
| "binds A (N_STRUCT struct) = binds_fields A struct"
| "binds A (N_GROUP cParams) = binds_list A cParams"
| "binds A (N_FUNC func cParams) = binds A cParams"
| "binds A (N_MATCH cond cresults) = (binds A cond \<or> binds_list A cresults)"
| "binds A (N_SEEK p mode) = binds A p"
| "binds A (N_PEEK v) = binds A v"
| "binds A v = False"
| "binds_list A [] = False"
| "binds_list A (v # vs) = (binds A v \<or> binds_list A vs)"
| "binds_fields A [] = False"
| "binds_fields A ((n, v) # rest) = (n = A \<or> binds A v \<or> binds_fields A rest)"

fun subst :: "string \<Rightarrow> pyval \<Rightarrow> node \<Rightarrow> node"
  and subst_list :: "string \<Rightarrow> pyval \<Rightarrow> node list \<Rightarrow> node list"
  and subst_fields :: "string \<Rightarrow> pyval \<Rightarrow> (string \<times> node) list \<Rightarrow> (string \<times> node) list"
where
  "subst A x (N_VAR n) = (if n = A then N_CONST x else N_VAR n)"
| "subst A x (N_STR lenParams encoding) = N_STR (subst A x lenParams) encoding"
| "subst A x (N_BYTES lenParams) = N_BYTES (subst A x lenParams)"
| "subst A x (N_BYTES2 lenParams) = N_BYTES2 (subst A x lenParams)"
| "subst A x (N_LIST cnt v) = N_LIST (subst A x cnt) (subst A x v)"
| "subst A x (N_STRUCT struct) = N_STRUCT (subst_fields A x struct)"
| "subst A x (N_GROUP cParams) = N_GROUP (subst_list A x cParams)"
| "subst A x (N_FUNC func cParams) = N_FUNC func (subst A x cParams)"
| "subst A x (N_MATCH cond cresults) = N_MATCH (subst A x cond) (subst_list A x cresults)"
| "subst A x (N_SEEK p mode) = N_SEEK (subst A x p) mode"
| "subst A x (N_PEEK v) = N_PEEK (subst A x v)"
| "subst A x v = v"
| "subst_list A x [] = []"
| "subst_list A x (v # vs) = subst A x v # subst_list A x vs"
| "subst_fields A x [] = []"
| "subst_fields A x ((n, v) # rest) = (n, subst A x v) # subst_fields A x rest"

fun subst_exn :: "string \<Rightarrow> pyval \<Rightarrow> exn \<Rightarrow> exn" where
  "subst_exn A x (Err e) = Err e"
| "subst_exn A x (RuntimeError v e) = RuntimeError (subst A x v) (subst_exn A x e)"

definition relabel :: "string \<Rightarrow> pyval \<Rightarrow> 'a result \<Rightarrow> 'a result" where
  "relabel A x res = (case res of (Inl e, s) \<Rightarrow> (Inl (subst_exn A x e), s) | (Inr v, s) \<Rightarrow> (Inr v, s))"

section \<open>Unsigned varints: the decoder against the reference encoder\<close>

lemma and127: "(x::int) AND 127 = x mod 128"
proof -
  have m: "(mask 7 :: int) = 127" by (simp add: mask_eq_exp_minus_1)
  have "x AND mask 7 = x mod 2 ^ 7"
    by (simp only: take_bit_eq_mask [symmetric] take_bit_eq_mod)
  then show ?thesis by (simp only: m) simp
qed

lemma and128: "0 \<le> x \<Longrightarrow> x < 256 \<Longrightarrow> ((x::int) AND 128 = 0) = (x < 128)"
proof -
  assume a: "0 \<le> x" "x < 256"
  have "(x AND 2 ^ 7 = 0) = (\<not> bit x 7)"
    by (rule and_exp_eq_0_iff_not_bit)
  also have "\<dots> = even (x div 128)"
    by (simp add: bit_iff_odd)
  also have "\<dots> = (x < 128)"
  proof (cases "x < 128")
    case True
    with a have "x div 128 = 0" by simp
    with True show ?thesis by simp
  next
    case False
    with a have "x div 128 = 1" by simp
    with False show ?thesis by simp
  qed
  finally show ?thesis by simp
qed

lemma or_push_bit_add:
  "0 \<le> v \<Longrightarrow> v < 2 ^ s \<Longrightarrow> v OR push_bit s (x::int) = v + 2 ^ s * x"
proof -
  assume a: "0 \<le> v" "v < 2 ^ s"
  then have t: "take_bit s v = v" by (simp add: take_bit_int_eq_self)
  have "take_bit s v AND push_bit s x = 0"
    by (rule bit_eqI) (auto simp: bit_simps)
  with t have "v AND push_bit s x = 0" by simp
  then have "v + push_bit s x = v OR push_bit s x"
    by (rule disjunctive_add_eq_or)
  then show ?thesis by (simp add: push_bit_eq_mult mult.commute)
qed

lemma uint_byte: "n < 256 \<Longrightarrow> uint (of_nat n :: byte) = int n"
  by (simp add: unsigned_of_nat take_bit_nat_eq_self)

lemma Uvarint_loop_step:
  "Uvarint_loop r v s =
     (if pos r < length (buf r) then
        (let byte = uint (buf r ! pos r); v' = v OR push_bit s (byte AND 0x7F)
         in if byte AND 0x80 = 0 then (Inr (VInt v'), r\<lparr>pos := Suc (pos r)\<rparr>)
            else Uvarint_loop (r\<lparr>pos := Suc (pos r)\<rparr>) v' (s + 7))
      else (Inl EOFError, r))"
  by (subst Uvarint_loop.simps) (simp add: read_one)

lemma Uvarint_loop_last:
  "pos r < length (buf r) \<Longrightarrow> uint (buf r ! pos r) AND 128 = 0 \<Longrightarrow>
   Uvarint_loop r v s =
     (Inr (VInt (v OR push_bit s (uint (buf r ! pos r) AND 127))), r\<lparr>pos := Suc (pos r)\<rparr>)"
  by (subst Uvarint_loop_step) (simp add: Let_def)

lemma Uvarint_loop_more:
  "pos r < length (buf r) \<Longrightarrow> uint (buf r ! pos r) AND 128 \<noteq> 0 \<Longrightarrow>
   Uvarint_loop r v s =
     Uvarint_loop (r\<lparr>pos := Suc (pos r)\<rparr>) (v OR push_bit s (uint (buf r ! pos r) AND 127)) (s + 7)"
  by (subst Uvarint_loop_step) (simp add: Let_def)

lemma Uvarint_loop_eof:
  "\<not> pos r < length (buf r) \<Longrightarrow> Uvarint_loop r v s = (Inl EOFError, r)"
  by (subst Uvarint_loop_step) simp

lemma leb128_reference_not_Nil: "leb128_reference n \<noteq> []"
  by (subst leb128_reference.simps) simp

lemma Uvarint_loop_decodes:
  "0 \<le> v \<Longrightarrow> v < 2 ^ s \<Longrightarrow> buf r = pre @ leb128_reference n @ post \<Longrightarrow> pos r = length pre \<Longrightarrow>
   Uvarint_loop r v s =
     (Inr (VInt (v + 2 ^ s * int n)), r\<lparr>pos := length pre + length (leb128_reference n)\<rparr>)"
proof (induction n arbitrary: r v s pre rule: leb128_reference.induct)
  case (1 n)
  show ?case
  proof (cases "n < 128")
    case True
    then have enc: "leb128_reference n = [of_nat n]"
      by (subst leb128_reference.simps) simp
    have b: "buf r ! pos r = of_nat n" and lt: "pos r < length (buf r)"
      using "1.prems" enc by simp_all
    have u: "uint (of_nat n :: byte) = int n"
      using True by (simp add: uint_byte)
    have lo: "int n AND 127 = int n"
      using True by (simp add: and127)
    have hi: "int n AND 128 = 0"
      using True by (simp add: and128)
    have orv: "v OR push_bit s (int n) = v + 2 ^ s * int n"
      using "1.prems" by (simp add: or_push_bit_add)
    have "Uvarint_loop r v s =
      (Inr (VInt (v OR push_bit s (uint (buf r ! pos r) AND 127))), r\<lparr>pos := Suc (pos r)\<rparr>)"
      by (rule Uvarint_loop_last [OF lt]) (simp only: b u hi)
    also have "v OR push_bit s (uint (buf r ! pos r) AND 127) = v + 2 ^ s * int n"
      by (simp only: b u lo orv)
    finally show ?thesis
      using enc "1.prems" by simp
  next
    case False
    let ?b = "of_nat (n mod 128 + 128) :: byte"
    let ?v = "v + 2 ^ s * int (n mod 128)"
    let ?r = "r\<lparr>pos := Suc (pos r)\<rparr>"
    from False have enc: "leb128_reference n = ?b # leb128_reference (n div 128)"
      by (subst leb128_reference.simps) simp
    have b: "buf r ! pos r = ?b" and lt: "pos r < length (buf r)"
      using "1.prems" enc by simp_all
    have u: "uint ?b = int (n mod 128 + 128)"
      by (rule uint_byte) simp
    have lo: "int (n mod 128 + 128) AND 127 = int (n mod 128)"
      by (simp add: and127 zmod_int)
    have hi: "int (n mod 128 + 128) AND 128 \<noteq> 0"
      by (subst and128) simp_all
    have orv: "v OR push_bit s (int (n mod 128)) = ?v"
      using "1.prems" by (simp add: or_push_bit_add)
    have v0: "0 \<le> ?v" using "1.prems" by simp
    have le: "2 ^ s * int (n mod 128) \<le> 2 ^ s * (127::int)"
      by (intro mult_left_mono) simp_all
    have p: "(2::int) ^ (s + 7) = 2 ^ s * 128"
      by (simp add: power_add)
    have v1: "?v < 2 ^ (s + 7)"
      unfolding p using le "1.prems"(2) by linarith
    have bufr: "buf ?r = (pre @ [?b]) @ leb128_reference (n div 128) @ post"
      using "1.prems" enc by simp
    have posr: "pos ?r = length (pre @ [?b])"
      using "1.prems" by simp
    have IH: "Uvarint_loop ?r ?v (s + 7) =
      (Inr (VInt (?v + 2 ^ (s + 7) * int (n div 128))),
       ?r\<lparr>pos := length (pre @ [?b]) + length (leb128_reference (n div 128))\<rparr>)"
      by (rule "1.IH" [OF False v0 v1 bufr posr])
    have "int n = int (n mod 128) + 128 * int (n div 128)"
      by (simp add: zmod_int zdiv_int)
    then have val: "?v + 2 ^ (s + 7) * int (n div 128) = v + 2 ^ s * int n"
      by (simp add: power_add algebra_simps)
    have "Uvarint_loop r v s =
      Uvarint_loop ?r (v OR push_bit s (uint (buf r ! pos r) AND 127)) (s + 7)"
      by (rule Uvarint_loop_more [OF lt]) (simp only: b u hi not_False_eq_True)
    also have "v OR push_bit s (uint (buf r ! pos r) AND 127) = ?v"
      by (simp only: b u lo orv)
    finally show ?thesis
      using IH val enc "1.prems" by simp
  qed
qed

lemma Uvarint_loop_truncated:
  "buf r = pre @ butlast (leb128_reference n) \<Longrightarrow> pos r = length pre \<Longrightarrow>
   Uvarint_loop r v s = (Inl EOFError, r\<lparr>pos := length (buf r)\<rparr>)"
proof (induction n arbitrary: r v s pre rule: leb128_reference.induct)
  case (1 n)
  show ?case
  proof (cases "n < 128")
    case True
    then have enc: "leb128_reference n = [of_nat n]"
      by (subst leb128_reference.simps) simp
    with "1.prems" have "pos r = length (buf r)" by simp
    then show ?thesis
      by (simp add: Uvarint_loop_eof)
  next
    case False
    let ?b = "of_nat (n mod 128 + 128) :: byte"
    let ?r = "r\<lparr>pos := Suc (pos r)\<rparr>"
    from False have enc: "leb128_reference n = ?b # leb128_reference (n div 128)"
      by (subst leb128_reference.simps) simp
    then have bl: "butlast (leb128_reference n) = ?b # butlast (leb128_reference (n div 128))"
      by (simp add: leb128_reference_not_Nil)
    have b: "buf r ! pos r = ?b" and lt: "pos r < length (buf r)"
      using "1.prems" bl by simp_all
    have u: "uint ?b = int (n mod 128 + 128)"
      by (rule uint_byte) simp
    have hi: "int (n mod 128 + 128) AND 128 \<noteq> 0"
      by (subst and128) simp_all
    have bufr: "buf ?r = (pre @ [?b]) @ butlast (leb128_reference (n div 128))"
      using "1.prems" bl by simp
    have posr: "pos ?r = length (pre @ [?b])"
      using "1.prems" by simp
    have IH: "\<And>v' s'. Uvarint_loop ?r v' s' = (Inl EOFError, ?r\<lparr>pos := length (buf ?r)\<rparr>)"
      by (rule "1.IH" [OF False bufr posr])
    have "Uvarint_loop r v s =
      Uvarint_loop ?r (v OR push_bit s (uint (buf r ! pos r) AND 127)) (s + 7)"
      by (rule Uvarint_loop_more [OF lt]) (simp only: b u hi not_False_eq_True)
    then show ?thesis
      using IH by simp
  qed
qed

lemma leb128_reference_300: "leb128_reference 300 = [0xAC, 0x02]"
  by (subst leb128_reference.simps, simp, subst leb128_reference.simps, simp)

text \<open>
  Claim C4.  For every non-negative integer \<open>V\<close>, \<^verbatim>\<open>ParseUvarint\<close> at the start of the
  reference LEB128 encoding of \<open>V\<close> (wherever it lies in the buffer, whatever follows it)
  returns exactly \<open>V\<close> and stops behind the encoding; and on the encoding with its last
  byte cut off, at the end of the input, it raises \<^verbatim>\<open>EOFError\<close>.
\<close>

theorem ParseUvarint_leb128:
  "ParseUvarint \<lparr>buf = pre @ leb128_reference V @ post, pos = length pre\<rparr> =
     (Inr (VInt (int V)),
      \<lparr>buf = pre @ leb128_reference V @ post, pos = length pre + length (leb128_reference V)\<rparr>)
   \<and> ParseUvarint \<lparr>buf = pre @ butlast (leb128_reference V), pos = length pre\<rparr> =
     (Inl EOFError,
      \<lparr>buf = pre @ butlast (leb128_reference V),
       pos = length pre + length (butlast (leb128_reference V))\<rparr>)"
proof
  have "Uvarint_loop \<lparr>buf = pre @ leb128_reference V @ post, pos = length pre\<rparr> 0 0 =
    (Inr (VInt (0 + 2 ^ 0 * int V)),
     \<lparr>buf = pre @ leb128_reference V @ post, pos = length pre\<rparr>
       \<lparr>pos := length pre + length (leb128_reference V)\<rparr>)"
    by (rule Uvarint_loop_decodes) simp_all
  then show "ParseUvarint \<lparr>buf = pre @ leb128_reference V @ post, pos = length pre\<rparr> =
     (Inr (VInt (int V)),
      \<lparr>buf = pre @ leb128_reference V @ post, pos = length pre + length (leb128_reference V)\<rparr>)"
    by (simp add: ParseUvarint_def)
next
  have "Uvarint_loop \<lparr>buf = pre @ butlast (leb128_reference V), pos = length pre\<rparr> 0 0 =
    (Inl EOFError,
     \<lparr>buf = pre @ butlast (leb128_reference V), pos = length pre\<rparr>
       \<lparr>pos := length (buf \<lparr>buf = pre @ butlast (leb128_reference V), pos = length pre\<rparr>)\<rparr>)"
    by (rule Uvarint_loop_truncated) simp_all
  then show "ParseUvarint \<lparr>buf = pre @ butlast (leb128_reference V), pos = length pre\<rparr> =
     (Inl EOFError,
      \<lparr>buf = pre @ butlast (leb128_reference V),
       pos = length pre + length (butlast (leb128_reference V))\<rparr>)"
    by (simp add: ParseUvarint_def)
qed

theorem ParseUvarint_leb128_witness:
  "ParseUvarint \<lparr>buf = [0xAC, 0x02], pos = 0\<rparr> = (Inr (VInt 300), \<lparr>buf = [0xAC, 0x02], pos = 2\<rparr>)
   \<and> ParseUvarint \<lparr>buf = [0xAC], pos = 0\<rparr> = (Inl EOFError, \<lparr>buf = [0xAC], pos = 1\<rparr>)"
  using ParseUvarint_leb128 [of "[]" 300 "[]"] by (simp add: leb128_reference_300)

section \<open>Fixed-width integers against the reference interpretation\<close>

text \<open>
  The reference interpretation of \<open>k\<close> bytes is that of the machine word of \<open>8 * k\<close> bits
  they spell, most significant byte first (\<open>word_rcat\<close>): \<open>uint\<close> reads it unsigned and
  \<open>sint\<close> as two's complement.  The value \<^verbatim>\<open>int.from_bytes\<close> accumulates is compared with it.
\<close>

lemma be_value_snoc: "be_value (bs @ [b]) = be_value bs * 256 + uint b"
  by (simp add: be_value_def)

lemma be_value_horner: "be_value bs = horner_sum uint 256 (rev bs)"
  by (induction bs rule: rev_induct) (simp_all add: be_value_snoc, simp add: be_value_def)

lemma be_value_Cons: "be_value (b # bs) = uint b * 2 ^ (8 * length bs) + be_value bs"
proof (induction bs rule: rev_induct)
  case Nil
  show ?case by (simp add: be_value_def)
next
  case (snoc x xs)
  have "be_value (b # xs @ [x]) = be_value (b # xs) * 256 + uint x"
    using be_value_snoc [of "b # xs" x] by simp
  also have "\<dots> = (uint b * 2 ^ (8 * length xs) + be_value xs) * 256 + uint x"
    by (simp only: snoc.IH)
  also have "\<dots> = uint b * 2 ^ (8 * length (xs @ [x])) + be_value (xs @ [x])"
    by (simp add: be_value_snoc power_add algebra_simps)
  finally show ?case .
qed

lemma be_value_nonneg: "0 \<le> be_value bs"
  by (induction bs rule: rev_induct) (simp_all add: be_value_snoc, simp add: be_value_def)

lemma be_value_less: "be_value bs < 2 ^ (8 * length bs)"
proof (induction bs rule: rev_induct)
  case Nil
  show ?case by (simp add: be_value_def)
next
  case (snoc x xs)
  have "uint x < 256" using uint_bounded [of x] by simp
  moreover have "(2::int) ^ (8 * length (xs @ [x])) = 2 ^ (8 * length xs) * 256"
    by (simp add: power_add)
  ultimately show ?case using snoc.IH by (simp only: be_value_snoc)
qed

lemma uint_word_rcat_bytes:
  fixes bs :: "byte list"
  assumes "8 * length bs = LENGTH('a::len)"
  shows "uint (word_rcat bs :: 'a word) = be_value bs"
proof -
  have "uint (word_rcat bs :: 'a word) = take_bit LENGTH('a) (be_value bs)"
    by (simp add: word_rcat_def be_value_horner uint_word_of_int_eq)
  also have "\<dots> = be_value bs"
    using be_value_nonneg [of bs] be_value_less [of bs] assms
    by (simp add: take_bit_int_eq_self)
  finally show ?thesis .
qed

lemma top_bit_be_value:
  "bit (be_value (b # bs)) (8 * length bs + 7) = (128 \<le> uint b)"
proof -
  let ?n = "8 * length bs"
  have r: "0 \<le> be_value bs" "be_value bs < 2 ^ ?n"
    by (rule be_value_nonneg, rule be_value_less)
  have q: "be_value (b # bs) div 2 ^ ?n = uint b"
    using r by (simp add: be_value_Cons)
  have "be_value (b # bs) div 2 ^ (?n + 7) = (be_value (b # bs) div 2 ^ ?n) div 2 ^ 7"
    by (simp add: power_add zdiv_zmult2_eq)
  then have d: "be_value (b # bs) div 2 ^ (?n + 7) = uint b div 128"
    by (simp add: q)
  have u: "0 \<le> uint b" "uint b < 256" using uint_bounded [of b] by simp_all
  have "odd (uint b div 128) = (128 \<le> uint b)"
  proof (cases "128 \<le> uint b")
    case True
    with u have "uint b div 128 = 1" by simp
    with True show ?thesis by simp
  next
    case False
    with u have "uint b div 128 = 0" by simp
    with False show ?thesis by simp
  qed
  then show ?thesis by (simp add: bit_iff_odd d)
qed

lemma sint_word_rcat_bytes:
  fixes bs :: "byte list"
  assumes "8 * length bs = LENGTH('a::len)"
  shows "sint (word_rcat bs :: 'a word) =
    (if bs \<noteq> [] \<and> 128 \<le> uint (hd bs) then be_value bs - 2 ^ (8 * length bs) else be_value bs)"
proof -
  from assms obtain b bs' where bs: "bs = b # bs'"
    by (cases bs) auto
  have L: "LENGTH('a) - Suc 0 = 8 * length bs' + 7" "Suc (8 * length bs' + 7) = 8 * length bs"
    using assms bs by simp_all
  have "sint (word_rcat bs :: 'a word) = signed_take_bit (8 * length bs' + 7) (be_value bs)"
    by (simp only: sint_uint uint_word_rcat_bytes [OF assms] L)
  also have "\<dots> = take_bit (8 * length bs) (be_value bs)
      - 2 ^ (8 * length bs) * of_bool (bit (be_value bs) (8 * length bs' + 7))"
    by (simp only: signed_take_bit_eq_take_bit_minus L)
  also have "take_bit (8 * length bs) (be_value bs) = be_value bs"
    using be_value_nonneg [of bs] be_value_less [of bs] by (simp add: take_bit_int_eq_self)
  also have "bit (be_value bs) (8 * length bs' + 7) = (128 \<le> uint b)"
    unfolding bs by (rule top_bit_be_value)
  finally show ?thesis by (simp add: bs)
qed

lemma read_exact:
  "read \<lparr>buf = pre @ b @ post, pos = length pre\<rparr> (int (length b)) =
     (b, \<lparr>buf = pre @ b @ post, pos = length pre + length b\<rparr>)"
  by (simp add: read_def)

text \<open>
  On an input of exactly the node's size, \<^verbatim>\<open>ParseInt\<close> returns the reference value of the
  bytes for the order \<^verbatim>\<open>'big'\<close>, that of the reversed bytes for \<^verbatim>\<open>'little'\<close>, and raises
  \<^verbatim>\<open>ValueError\<close> for every other order string.  The node sizes, signs and orders that the
  builders \<^verbatim>\<open>Int\<close>, \<^verbatim>\<open>UInt\<close>, \<^verbatim>\<open>IntBE\<close> and \<^verbatim>\<open>UIntBE\<close> compile to fall under the first two cases.
\<close>

lemma ParseInt_reference:
  fixes b :: "byte list"
  assumes "8 * length b = LENGTH('a::len)"
  shows "ParseInt \<lparr>buf = pre @ b @ post, pos = length pre\<rparr>
           (VInt (int LENGTH('a) div 8)) (VBool sg) (VStr ord) =
     (if ord = ''big'' then
        Inr (VInt (if sg then sint (word_rcat b :: 'a word) else uint (word_rcat b :: 'a word)))
      else if ord = ''little'' then
        Inr (VInt (if sg then sint (word_rcat (rev b) :: 'a word)
                   else uint (word_rcat (rev b) :: 'a word)))
      else Inl ValueError,
      \<lparr>buf = pre @ b @ post, pos = length pre + length b\<rparr>)"
proof -
  from assms have n: "int LENGTH('a) div 8 = int (length b)"
    by (metis nonzero_mult_div_cancel_left of_nat_mult of_nat_numeral zero_neq_numeral)
  have rd: "read_dyn \<lparr>buf = pre @ b @ post, pos = length pre\<rparr> (VInt (int LENGTH('a) div 8)) =
      Inr (b, \<lparr>buf = pre @ b @ post, pos = length pre + length b\<rparr>)"
    unfolding n by (simp add: read_dyn_def read_exact)
  from assms have rv: "8 * length (rev b) = LENGTH('a)" by simp
  have ne: "b \<noteq> []" using assms by auto
  have big: "from_bytes b (VStr ''big'') (VBool sg) =
      Inr (if sg then sint (word_rcat b :: 'a word) else uint (word_rcat b :: 'a word))"
    using ne by (simp add: from_bytes_def uint_word_rcat_bytes [OF assms] sint_word_rcat_bytes [OF assms])
  have little: "from_bytes b (VStr ''little'') (VBool sg) =
      Inr (if sg then sint (word_rcat (rev b) :: 'a word) else uint (word_rcat (rev b) :: 'a word))"
    using ne by (simp add: from_bytes_def uint_word_rcat_bytes [OF rv] sint_word_rcat_bytes [OF rv])
  have other: "ord \<noteq> ''big'' \<Longrightarrow> ord \<noteq> ''little'' \<Longrightarrow> from_bytes b (VStr ord) (VBool sg) = Inl ValueError"
    by (simp add: from_bytes_def)
  show ?thesis
    using big little other by (auto simp: ParseInt_def rd)
qed

lemma ParseInt_reference_example:
  "ParseInt \<lparr>buf = [0xFF, 0xFE], pos = 0\<rparr> (VInt 2) (VBool True) (VStr ''big'') =
     (Inr (VInt (- 2)), \<lparr>buf = [0xFF, 0xFE], pos = 2\<rparr>)
   \<and> sint (word_rcat [0xFF, 0xFE :: byte] :: 16 word) = - 2
   \<and> ParseInt \<lparr>buf = [0xFF, 0xFE], pos = 0\<rparr> (VInt 2) (VBool False) (VStr ''little'') =
     (Inr (VInt 65279), \<lparr>buf = [0xFF, 0xFE], pos = 2\<rparr>)"
  using ParseInt_reference [where 'a = 16, of "[0xFF, 0xFE]" "[]" "[]" True "''big''"]
    ParseInt_reference [where 'a = 16, of "[0xFF, 0xFE]" "[]" "[]" False "''little''"]
  by (simp add: ParseInt_def read_dyn_def read_def from_bytes_def be_value_def Let_def word_rcat_def)

section \<open>The sized builders\<close>

text \<open>
  Claim C1.  The builders \<^verbatim>\<open>IntLE\<close> and \<^verbatim>\<open>UIntLE\<close> store the byte order \<^verbatim>\<open>'Little'\<close>, which
  \<^verbatim>\<open>int.from_bytes\<close> refuses: for every bit-width, every default order and every input,
  the descriptor is built, compiles to a node that keeps \<^verbatim>\<open>'Little'\<close>, and decoding that
  node raises \<^verbatim>\<open>ValueError\<close> after the read, instead of returning the little-endian value.
\<close>

theorem IntLE_decode_raises:
  "TypeFactory_getitem (TypeFactory_init ''IntLE'') w = Some (Inr (D_INT (VInt (w div 8)) (VStr ''Little'') (VBool True)))
   \<and> TypeFactory_getitem (TypeFactory_init ''UIntLE'') w = Some (Inr (D_INT (VInt (w div 8)) (VStr ''Little'') (VBool False)))
   \<and> CompileType (D_INT (VInt (w div 8)) (VStr ''Little'') sg) order order2 encoding bytesToHex
       = Inr (N_INT (VInt (w div 8)) sg (VStr ''Little''))
   \<and> dispatch E (N_INT (VInt (w div 8)) sg (VStr ''Little'')) r c
       = (Inl (Err ValueError), snd (read r (w div 8)), c)"
  by (simp add: TypeFactory_getitem_def TypeFactory_init_def BaseType_init_def
      startswith_def endswith_def py_or_def leaf_def ParseInt_def read_dyn_def from_bytes_def
      split: prod.splits)

text \<open>The same through the entry point, on the two bytes \<open>01 00\<close> of a 16-bit \<^verbatim>\<open>IntLE\<close>.\<close>

lemma IntLE_ParseStruct_fails:
  "ParseStruct example_cls (Class [(''x'', D_INT (VInt 2) (VStr ''Little'') (VBool True))]) (Raw [1, 0])
     (VStr ''little'') (VStr ''utf-8'') VNone False Map.empty
   = (Inl (RuntimeError (N_INT (VInt 2) (VBool True) (VStr ''Little'')) (Err ValueError)),
      \<lparr>buf = [1, 0], pos = 2\<rparr>, Map.empty)"
  by (simp add: ParseStruct_def CompileStruct_def dunder_def startswith_def endswith_def py_or_def
      leaf_def ParseInt_def read_dyn_def read_def from_bytes_def)

text \<open>
  Claim C2.  No Float descriptor can be built: \<^verbatim>\<open>_TypeFactory('Float')\<close> (and \<^verbatim>\<open>'FloatBE'\<close>,
  \<^verbatim>\<open>'FloatLE'\<close>) holds one parameter, the order, so \<^verbatim>\<open>__getitem__\<close> passes a pair to
  \<^verbatim>\<open>BaseType.__init__\<close>, whose float branch unpacks three items (\<open>Bits\<close>, \<open>Order\<close>, \<open>Sign\<close>):
  for every bit-width the builder raises \<^verbatim>\<open>ValueError\<close>, before anything is compiled or read.
\<close>

theorem Float_builders_raise:
  "TypeFactory_getitem (TypeFactory_init ''Float'') w = Some (Inl ValueError)
   \<and> TypeFactory_getitem (TypeFactory_init ''FloatBE'') w = Some (Inl ValueError)
   \<and> TypeFactory_getitem (TypeFactory_init ''FloatLE'') w = Some (Inl ValueError)"
  by (simp add: TypeFactory_getitem_def TypeFactory_init_def BaseType_init_def
      startswith_def endswith_def)

text \<open>
  Claim C3, as stated, fails: \<^verbatim>\<open>Int[12]\<close> is built without an error, with byte size 1, and
  compiles to a canonical node of size 1.
\<close>

theorem Int_builder_rounds_down_counterexample:
  "TypeFactory_getitem (TypeFactory_init ''Int'') 12 = Some (Inr (D_INT (VInt 1) VNone (VBool True)))
   \<and> CompileType (D_INT (VInt 1) VNone (VBool True)) (VStr ''little'') (VStr ''<'') (VStr ''utf-8'') False
       = Inr (N_INT (VInt 1) (VBool True) (VStr ''little''))"
  by (simp add: TypeFactory_getitem_def TypeFactory_init_def BaseType_init_def
      startswith_def endswith_def py_or_def)

text \<open>
  Claim C3, amended.  For every bit-width \<open>w\<close> (a multiple of 8 or not), each of the six
  integer builders returns a descriptor whose byte size is \<open>w div 8\<close>, rounded towards
  minus infinity, and compiling such a descriptor succeeds with that size: no check of
  the width is made anywhere.
\<close>

theorem Int_builders_floor:
  "(\<exists>ord sg. TypeFactory_getitem (TypeFactory_init ''Int'') w = Some (Inr (D_INT (VInt (w div 8)) ord sg)))
   \<and> (\<exists>ord sg. TypeFactory_getitem (TypeFactory_init ''UInt'') w = Some (Inr (D_INT (VInt (w div 8)) ord sg)))
   \<and> (\<exists>ord sg. TypeFactory_getitem (TypeFactory_init ''IntBE'') w = Some (Inr (D_INT (VInt (w div 8)) ord sg)))
   \<and> (\<exists>ord sg. TypeFactory_getitem (TypeFactory_init ''UIntBE'') w = Some (Inr (D_INT (VInt (w div 8)) ord sg)))
   \<and> (\<exists>ord sg. TypeFactory_getitem (TypeFactory_init ''IntLE'') w = Some (Inr (D_INT (VInt (w div 8)) ord sg)))
   \<and> (\<exists>ord sg. TypeFactory_getitem (TypeFactory_init ''UIntLE'') w = Some (Inr (D_INT (VInt (w div 8)) ord sg)))
   \<and> CompileType (D_INT (VInt (w div 8)) ord sg) order order2 encoding bytesToHex
       = Inr (N_INT (VInt (w div 8)) sg (py_or ord order))"
  by (simp add: TypeFactory_getitem_def TypeFactory_init_def BaseType_init_def
      startswith_def endswith_def)

section \<open>Lookahead\<close>

text \<open>
  Claim C5.  For every compiled descriptor \<open>D\<close>, every byte source \<open>r\<close> (its position is
  \<open>P\<close>) and every context: when decoding \<open>D\<close> returns a value, decoding \<open>Lookahead(D)\<close>
  returns the same value, makes the same bindings, and leaves the source as \<open>D\<close> left it
  but at position \<open>P\<close>, whatever \<open>D\<close> read or seeked; when decoding \<open>D\<close> raises, the
  lookahead raises the same exception (and nothing is rewound).
\<close>

theorem ParsePeek_restores:
  "dispatch E (N_PEEK D) r c =
     (case dispatch E D r c of
        (Inl e, r', c') \<Rightarrow> (Inl e, r', c')
      | (Inr v, r', c') \<Rightarrow> (Inr v, r'\<lparr>pos := pos r\<rparr>, c'))"
  by (simp add: tell_def seek_def split: prod.splits sum.splits)

theorem ParsePeek_restores_witness:
  "dispatch example_cls (N_INT (VInt 2) (VBool False) (VStr ''big'')) \<lparr>buf = [9, 1, 2, 3], pos = 1\<rparr> Map.empty
     = (Inr (VInt 258), \<lparr>buf = [9, 1, 2, 3], pos = 3\<rparr>, Map.empty)
   \<and> dispatch example_cls (N_PEEK (N_INT (VInt 2) (VBool False) (VStr ''big''))) \<lparr>buf = [9, 1, 2, 3], pos = 1\<rparr> Map.empty
     = (Inr (VInt 258), \<lparr>buf = [9, 1, 2, 3], pos = 1\<rparr>, Map.empty)"
  using ParsePeek_restores [of example_cls "N_INT (VInt 2) (VBool False) (VStr ''big'')"
      "\<lparr>buf = [9, 1, 2, 3], pos = 1\<rparr>" Map.empty]
  by (simp add: leaf_def ParseInt_def read_dyn_def read_def from_bytes_def be_value_def Let_def)

section \<open>Conditional variants\<close>

text \<open>
  Claim C8, as stated, fails on negative condition values: \<open>-1\<close> indexes no branch of a
  three-element result list, yet decoding returns the last branch instead of failing.
\<close>

theorem ParseMatch_negative_index_counterexample:
  "dispatch example_cls
     (N_MATCH (N_CONST (VInt (- 1))) [N_CONST (VStr ''x''), N_CONST (VStr ''y''), N_CONST (VStr ''z'')])
     \<lparr>buf = [], pos = 0\<rparr> Map.empty
   = (Inr (VStr ''z''), \<lparr>buf = [], pos = 0\<rparr>, Map.empty)"
  by (simp add: getitem_def)

text \<open>
  Claim C8, amended.  When the condition decodes to the integer \<open>i\<close> and \<open>n\<close> results are
  given, decoding continues, in the state the condition left, with exactly the result at
  index \<open>i\<close> if \<open>0 \<le> i < n\<close>, with the result at index \<open>n + i\<close> if \<open>-n \<le> i < 0\<close> (Python
  counts a negative index from the end), and raises \<^verbatim>\<open>IndexError\<close> otherwise.
\<close>

theorem ParseMatch_indexes:
  assumes "dispatch E cond r c = (Inr (VInt i), r', c')"
  shows "dispatch E (N_MATCH cond cresults) r c =
     (if 0 \<le> i \<and> i < int (length cresults) then dispatch E (cresults ! nat i) r' c'
      else if i < 0 \<and> - int (length cresults) \<le> i
        then dispatch E (cresults ! nat (int (length cresults) + i)) r' c'
      else (Inl (Err IndexError), r', c'))"
  using assms by (simp add: getitem_def)

theorem ParseMatch_indexes_witness:
  "dispatch example_cls (N_CONST (VInt 1)) \<lparr>buf = [], pos = 0\<rparr> Map.empty
     = (Inr (VInt 1), \<lparr>buf = [], pos = 0\<rparr>, Map.empty)
   \<and> dispatch example_cls
       (N_MATCH (N_CONST (VInt 1)) [N_CONST (VStr ''x''), N_CONST (VStr ''y''), N_CONST (VStr ''z'')])
       \<lparr>buf = [], pos = 0\<rparr> Map.empty
     = (Inr (VStr ''y''), \<lparr>buf = [], pos = 0\<rparr>, Map.empty)
   \<and> dispatch example_cls (N_CONST (VInt 5)) \<lparr>buf = [], pos = 0\<rparr> Map.empty
     = (Inr (VInt 5), \<lparr>buf = [], pos = 0\<rparr>, Map.empty)
   \<and> dispatch example_cls
       (N_MATCH (N_CONST (VInt 5)) [N_CONST (VStr ''x''), N_CONST (VStr ''y''), N_CONST (VStr ''z'')])
       \<lparr>buf = [], pos = 0\<rparr> Map.empty
     = (Inl (Err IndexError), \<lparr>buf = [], pos = 0\<rparr>, Map.empty)"
  using ParseMatch_indexes [of example_cls "N_CONST (VInt 1)" "\<lparr>buf = [], pos = 0\<rparr>" Map.empty 1
      "\<lparr>buf = [], pos = 0\<rparr>" Map.empty "[N_CONST (VStr ''x''), N_CONST (VStr ''y''), N_CONST (VStr ''z'')]"]
    ParseMatch_indexes [of example_cls "N_CONST (VInt 5)" "\<lparr>buf = [], pos = 0\<rparr>" Map.empty 5
      "\<lparr>buf = [], pos = 0\<rparr>" Map.empty "[N_CONST (VStr ''x''), N_CONST (VStr ''y''), N_CONST (VStr ''z'')]"]
  by simp

section \<open>Lists with a negative count\<close>

text \<open>
  Claim C10.  When the count descriptor of a List decodes to a negative integer, decoding
  the List does not fail: it returns the empty sequence, decodes the element descriptor
  zero times and leaves the source and the context where the count left them, which is
  what a count of zero does in that state.
\<close>

theorem ParseList_negative_count:
  assumes "dispatch E cnt r c = (Inr (VInt n), r', c')" and "n < 0"
  shows "dispatch E (N_LIST cnt v) r c = (Inr (VList []), r', c')
    \<and> dispatch E (N_LIST (N_CONST (VInt 0)) v) r' c' = (Inr (VList []), r', c')"
  using assms by (simp add: range_len_def)

theorem ParseList_negative_count_witness:
  "dispatch example_cls (N_INT (VInt 1) (VBool True) (VStr ''little'')) \<lparr>buf = [0xFF, 7], pos = 0\<rparr> Map.empty
     = (Inr (VInt (- 1)), \<lparr>buf = [0xFF, 7], pos = 1\<rparr>, Map.empty)
   \<and> (- 1 :: int) < 0
   \<and> dispatch example_cls (N_LIST (N_INT (VInt 1) (VBool True) (VStr ''little'')) N_BOOL)
       \<lparr>buf = [0xFF, 7], pos = 0\<rparr> Map.empty
     = (Inr (VList []), \<lparr>buf = [0xFF, 7], pos = 1\<rparr>, Map.empty)"
proof -
  have d: "dispatch example_cls (N_INT (VInt 1) (VBool True) (VStr ''little'')) \<lparr>buf = [0xFF, 7], pos = 0\<rparr> Map.empty
     = (Inr (VInt (- 1)), \<lparr>buf = [0xFF, 7], pos = 1\<rparr>, Map.empty)"
    by (simp add: leaf_def ParseInt_def read_dyn_def read_def from_bytes_def be_value_def Let_def)
  have n: "(- 1 :: int) < 0" by simp
  from ParseList_negative_count [OF d n, of N_BOOL] d n show ?thesis by simp
qed

section \<open>Failures of a field\<close>

lemma Parse_prefix:
  "Parse E pre obj r c = (Inr o1, r1, c1) \<Longrightarrow>
   \<exists>obj1. o1 = new_obj E obj1 \<and> (\<forall>rest. Parse E (pre @ rest) obj r c = Parse E rest obj1 r1 c1)"
proof (induction pre arbitrary: obj r c)
  case Nil
  then show ?case by auto
next
  case (Cons p pre)
  obtain n v where p: "p = (n, v)" by (cases p)
  from Cons.prems p obtain vv r' c' where
    d: "dispatch E v r c = (Inr vv, r', c')" and
    rest: "Parse E pre (AList.update n vv obj) r' (c'(n \<mapsto> vv)) = (Inr o1, r1, c1)"
    by (auto split: prod.splits sum.splits)
  from Cons.IH [OF rest] obtain obj1 where
    "o1 = new_obj E obj1"
    "\<forall>rest. Parse E (pre @ rest) (AList.update n vv obj) r' (c'(n \<mapsto> vv)) = Parse E rest obj1 r1 c1"
    by blast
  with d p show ?case by auto
qed

text \<open>
  Claim C9.  When the fields before a field \<open>n\<close> decode and the routine of \<open>n\<close>'s node \<open>v\<close>
  raises \<open>e\<close>, then \<^verbatim>\<open>Parse\<close> of the whole record raises \<^verbatim>\<open>RuntimeError(v)\<close> with \<open>e\<close>
  chained to it, in the state the failing routine left: no later field is decoded and no
  result is returned, whatever follows the field.  At the top level the entry point
  raises the same exception.
\<close>

theorem Parse_first_failure:
  assumes "Parse E pre obj r c = (Inr o1, r1, c1)"
    and "dispatch E v r1 c1 = (Inl e, r', c')"
  shows "Parse E (pre @ (n, v) # post) obj r c = (Inl (RuntimeError v e), r', c')
    \<and> (obj = [] \<and> c = Map.empty \<longrightarrow>
         ParseStruct E (Compiled (pre @ (n, v) # post)) (Reader r) order encoding order2 bytesToHex ctx0
           = (Inl (RuntimeError v e), r', c'))"
proof -
  from Parse_prefix [OF assms(1)] obtain obj1 where
    "\<forall>rest. Parse E (pre @ rest) obj r c = Parse E rest obj1 r1 c1"
    by blast
  then have "Parse E (pre @ (n, v) # post) obj r c = Parse E ((n, v) # post) obj1 r1 c1"
    by blast
  with assms(2) have 1: "Parse E (pre @ (n, v) # post) obj r c = (Inl (RuntimeError v e), r', c')"
    by simp
  then show ?thesis
    by (auto simp: ParseStruct_def)
qed

theorem Parse_first_failure_witness:
  "Parse example_cls [(''A'', N_CONST (VInt 1))] [] \<lparr>buf = [], pos = 0\<rparr> Map.empty
     = (Inr (VStruct [(''A'', VInt 1)]), \<lparr>buf = [], pos = 0\<rparr>, [''A'' \<mapsto> VInt 1])
   \<and> dispatch example_cls N_BOOL \<lparr>buf = [], pos = 0\<rparr> [''A'' \<mapsto> VInt 1]
     = (Inl (Err EOFError), \<lparr>buf = [], pos = 0\<rparr>, [''A'' \<mapsto> VInt 1])
   \<and> Parse example_cls [(''A'', N_CONST (VInt 1)), (''B'', N_BOOL), (''C'', N_CONST (VInt 2))] []
       \<lparr>buf = [], pos = 0\<rparr> Map.empty
     = (Inl (RuntimeError N_BOOL (Err EOFError)), \<lparr>buf = [], pos = 0\<rparr>, [''A'' \<mapsto> VInt 1])
   \<and> ParseStruct example_cls
       (Compiled [(''A'', N_CONST (VInt 1)), (''B'', N_BOOL), (''C'', N_CONST (VInt 2))])
       (Reader \<lparr>buf = [], pos = 0\<rparr>) (VStr ''little'') (VStr ''utf-8'') VNone False Map.empty
     = (Inl (RuntimeError N_BOOL (Err EOFError)), \<lparr>buf = [], pos = 0\<rparr>, [''A'' \<mapsto> VInt 1])"
proof -
  have a: "Parse example_cls [(''A'', N_CONST (VInt 1))] [] \<lparr>buf = [], pos = 0\<rparr> Map.empty
     = (Inr (VStruct [(''A'', VInt 1)]), \<lparr>buf = [], pos = 0\<rparr>, [''A'' \<mapsto> VInt 1])"
    by (simp add: new_obj_def example_cls_def)
  have b: "dispatch example_cls N_BOOL \<lparr>buf = [], pos = 0\<rparr> [''A'' \<mapsto> VInt 1]
     = (Inl (Err EOFError), \<lparr>buf = [], pos = 0\<rparr>, [''A'' \<mapsto> VInt 1])"
    by (simp add: leaf_def ParseBool_def read_def)
  from Parse_first_failure [OF a b, of "''B''" "[(''C'', N_CONST (VInt 2))]"
      "VStr ''little''" "VStr ''utf-8''" VNone False Map.empty] a b
  show ?thesis by simp
qed

section \<open>The Binding Context\<close>

text \<open>
  Three facts about every routine, by induction over the interpreter.  The context after
  a routine, whether it returns or raises, is the context before it overwritten by the
  bindings of the routine in their order (\<open>ctx_is_bindings\<close>).  A name that no record inside
  the node binds keeps its value (\<open>ctx_frame\<close>).  And a Back-reference to such a name, at
  any depth and behind any routine, yields the value the name has when the node's routine
  starts (\<open>subst_visible\<close>).
\<close>

lemma leaf_ctx: "snd (snd (leaf x c)) = c"
  by (simp add: leaf_def split: prod.splits sum.splits)

lemma bind_all_simps [simp]:
  "bind_all [] c = c"
  "bind_all (kv # bs) c = bind_all bs (c(fst kv \<mapsto> snd kv))"
  "bind_all (bs @ bs') c = bind_all bs' (bind_all bs c)"
  by (simp_all add: bind_all_def)

lemma ctx_is_bindings:
  "snd (snd (dispatch E v r c)) = bind_all (bindings E v r c) c"
  "snd (snd (Parse E s obj r c)) = bind_all (Parse_bindings E s r c) c"
  "snd (snd (ParseGroup_items E ps r c)) = bind_all (Group_bindings E ps r c) c"
  "snd (snd (ParseList_items E k v r c)) = bind_all (List_bindings E k v r c) c"
proof (induction E v r c and E s obj r c and E ps r c and E k v r c
    rule: dispatch_Parse_ParseGroup_items_ParseList_items.induct)
  case (1 E sz sg order r c)
  then show ?case by (simp add: leaf_ctx)
next
  case (2 E sz sg order r c)
  then show ?case by (simp add: leaf_ctx)
next
  case (3 E r c)
  then show ?case by (simp add: leaf_ctx)
next
  case (4 E r c)
  then show ?case by (simp add: leaf_ctx)
next
  case (5 E r c)
  then show ?case by simp
next
  case (6 E number r c)
  then show ?case by simp
next
  case (7 E n r c)
  then show ?case by (simp split: option.splits)
next
  case (8 E lenParams encoding r c)
  then show ?case by (auto split: prod.splits sum.splits)
next
  case (9 E lenParams r c)
  then show ?case by (auto split: prod.splits sum.splits)
next
  case (10 E lenParams r c)
  then show ?case by (auto split: prod.splits sum.splits)
next
  case (11 E cnt v r c)
  then show ?case by (fastforce simp: Let_def split: prod.splits sum.splits)
next
  case (12 E struct r c)
  then show ?case by simp
next
  case (13 E cParams r c)
  then show ?case by (auto split: prod.splits sum.splits)
next
  case (14 E func cParams r c)
  then show ?case by (auto split: prod.splits sum.splits)
next
  case (15 E cond cresults r c)
  then show ?case by (fastforce simp: Let_def split: prod.splits sum.splits)
next
  case (16 E p mode r c)
  then show ?case by (auto split: prod.splits sum.splits)
next
  case (17 E v r c)
  then show ?case by (auto simp: Let_def split: prod.splits sum.splits)
next
  case (18 E obj r c)
  then show ?case by simp
next
  case (19 E n v rest obj r c)
  then show ?case by (fastforce simp: Let_def split: prod.splits sum.splits)
next
  case (20 E r c)
  then show ?case by simp
next
  case (21 E i "is" r c)
  then show ?case by (fastforce simp: Let_def split: prod.splits sum.splits)
next
  case (22 E v r c)
  then show ?case by simp
next
  case (23 E k v r c)
  then show ?case by (fastforce simp: Let_def split: prod.splits sum.splits)
qed

lemma getitem_in_set: "getitem xs i = Inr d \<Longrightarrow> d \<in> set xs"
  by (auto simp: getitem_def split: sum.splits if_splits)

lemma binds_list_set: "binds_list A ps = (\<exists>v \<in> set ps. binds A v)"
  by (induction ps) auto

lemma subst_list_map: "subst_list A x ps = map (subst A x) ps"
  by (induction ps) auto

lemma getitem_subst:
  "getitem (subst_list A x ps) i = (case getitem ps i of Inl e \<Rightarrow> Inl e | Inr d \<Rightarrow> Inr (subst A x d))"
  by (auto simp: getitem_def subst_list_map split: sum.splits)

lemma relabel_simps [simp]:
  "relabel A x (Inl e, s) = (Inl (subst_exn A x e), s)"
  "relabel A x (Inr v, s) = (Inr v, s)"
  by (simp_all add: relabel_def)

lemma relabel_leaf [simp]: "relabel A x (leaf y c) = leaf y c"
  by (simp add: leaf_def split: prod.splits sum.splits)

lemma ctx_frame:
  "\<not> binds A v \<Longrightarrow> snd (snd (dispatch E v r c)) A = c A"
  "\<not> binds_fields A s \<Longrightarrow> snd (snd (Parse E s obj r c)) A = c A"
  "\<not> binds_list A ps \<Longrightarrow> snd (snd (ParseGroup_items E ps r c)) A = c A"
  "\<not> binds A v \<Longrightarrow> snd (snd (ParseList_items E k v r c)) A = c A"
proof (induction E v r c and E s obj r c and E ps r c and E k v r c
    rule: dispatch_Parse_ParseGroup_items_ParseList_items.induct)
  case (1 E sz sg order r c)
  then show ?case by (simp add: leaf_ctx)
next
  case (2 E sz sg order r c)
  then show ?case by (simp add: leaf_ctx)
next
  case (3 E r c)
  then show ?case by (simp add: leaf_ctx)
next
  case (4 E r c)
  then show ?case by (simp add: leaf_ctx)
next
  case (5 E r c)
  then show ?case by simp
next
  case (6 E number r c)
  then show ?case by simp
next
  case (7 E n r c)
  then show ?case by (simp split: option.splits)
next
  case (8 E lenParams encoding r c)
  then show ?case by (auto split: prod.splits sum.splits)
next
  case (9 E lenParams r c)
  then show ?case by (auto split: prod.splits sum.splits)
next
  case (10 E lenParams r c)
  then show ?case by (auto split: prod.splits sum.splits)
next
  case (11 E cnt v r c)
  then show ?case by (fastforce split: prod.splits sum.splits)
next
  case (12 E struct r c)
  then show ?case by simp
next
  case (13 E cParams r c)
  then show ?case by (auto split: prod.splits sum.splits)
next
  case (14 E func cParams r c)
  then show ?case by (auto split: prod.splits sum.splits)
next
  case (15 E cond cresults r c)
  then show ?case
    by (fastforce simp: binds_list_set dest: getitem_in_set split: prod.splits sum.splits)
next
  case (16 E p mode r c)
  then show ?case by (auto split: prod.splits sum.splits)
next
  case (17 E v r c)
  then show ?case by (auto simp: Let_def split: prod.splits sum.splits)
next
  case (18 E obj r c)
  then show ?case by simp
next
  case (19 E n v rest obj r c)
  then show ?case by (fastforce split: prod.splits sum.splits)
next
  case (20 E r c)
  then show ?case by simp
next
  case (21 E i "is" r c)
  then show ?case by (fastforce split: prod.splits sum.splits)
next
  case (22 E v r c)
  then show ?case by simp
next
  case (23 E k v r c)
  then show ?case by (fastforce split: prod.splits sum.splits)
qed

lemma subst_visible:
  "c A = Some x \<Longrightarrow> \<not> binds A v \<Longrightarrow>
     dispatch E (subst A x v) r c = relabel A x (dispatch E v r c)"
  "c A = Some x \<Longrightarrow> \<not> binds_fields A s \<Longrightarrow>
     Parse E (subst_fields A x s) obj r c = relabel A x (Parse E s obj r c)"
  "c A = Some x \<Longrightarrow> \<not> binds_list A ps \<Longrightarrow>
     ParseGroup_items E (subst_list A x ps) r c = relabel A x (ParseGroup_items E ps r c)"
  "c A = Some x \<Longrightarrow> \<not> binds A v \<Longrightarrow>
     ParseList_items E k (subst A x v) r c = relabel A x (ParseList_items E k v r c)"
proof (induction E v r c and E s obj r c and E ps r c and E k v r c
    rule: dispatch_Parse_ParseGroup_items_ParseList_items.induct)
  case (1 E sz sg order r c)
  then show ?case by simp
next
  case (2 E sz sg order r c)
  then show ?case by simp
next
  case (3 E r c)
  then show ?case by simp
next
  case (4 E r c)
  then show ?case by simp
next
  case (5 E r c)
  then show ?case by simp
next
  case (6 E number r c)
  then show ?case by simp
next
  case (7 E n r c)
  then show ?case by (simp split: option.splits)
next
  case (8 E lenParams encoding r c)
  then show ?case by (auto split: prod.splits sum.splits)
next
  case (9 E lenParams r c)
  then show ?case by (auto split: prod.splits sum.splits)
next
  case (10 E lenParams r c)
  then show ?case by (auto split: prod.splits sum.splits)
next
  case (11 E cnt v r c)
  from "11.prems" have nb: "\<not> binds A cnt" "\<not> binds A v" by simp_all
  have 1: "dispatch E (subst A x cnt) r c = relabel A x (dispatch E cnt r c)"
    by (rule "11.IH"(1) [OF "11.prems"(1) nb(1)])
  show ?case
  proof (cases "dispatch E cnt r c")
    case (fields res r' c')
    have cA: "c' A = Some x"
      using ctx_frame(1) [OF nb(1), of E r c] fields "11.prems"(1) by simp
    show ?thesis
    proof (cases res)
      case (Inl e)
      with fields 1 show ?thesis by simp
    next
      case (Inr loop)
      show ?thesis
      proof (cases "range_len loop")
        case (Inl e)
        with fields Inr 1 show ?thesis by simp
      next
        case k: (Inr k)
        have 2: "ParseList_items E k (subst A x v) r' c' = relabel A x (ParseList_items E k v r' c')"
          using "11.IH"(2) [of "Inr loop" "(r', c')" loop r' c' k] fields Inr k cA nb(2)
          by simp
        with fields Inr k 1 show ?thesis
          by (cases "ParseList_items E k v r' c'") (auto split: sum.splits)
      qed
    qed
  qed
next
  case (12 E struct r c)
  then show ?case by simp
next
  case (13 E cParams r c)
  then show ?case by (auto split: prod.splits sum.splits)
next
  case (14 E func cParams r c)
  then show ?case by (auto split: prod.splits sum.splits)
next
  case (15 E cond cresults r c)
  from "15.prems" have nb: "\<not> binds A cond" "\<not> binds_list A cresults" by simp_all
  have 1: "dispatch E (subst A x cond) r c = relabel A x (dispatch E cond r c)"
    by (rule "15.IH"(1) [OF "15.prems"(1) nb(1)])
  show ?case
  proof (cases "dispatch E cond r c")
    case (fields res r' c')
    have cA: "c' A = Some x"
      using ctx_frame(1) [OF nb(1), of E r c] fields "15.prems"(1) by simp
    show ?thesis
    proof (cases res)
      case (Inl e)
      with fields 1 show ?thesis by simp
    next
      case (Inr i)
      show ?thesis
      proof (cases "getitem cresults i")
        case (Inl e)
        with fields Inr 1 show ?thesis by (simp add: getitem_subst)
      next
        case d: (Inr d)
        then have "\<not> binds A d"
          using nb(2) getitem_in_set [OF d] by (auto simp: binds_list_set)
        then have 2: "dispatch E (subst A x d) r' c' = relabel A x (dispatch E d r' c')"
          using "15.IH"(2) [of "Inr i" "(r', c')" i r' c' d] fields Inr d cA
          by simp
        with fields Inr d 1 show ?thesis by (simp add: getitem_subst)
      qed
    qed
  qed
next
  case (16 E p mode r c)
  then show ?case by (auto split: prod.splits sum.splits)
next
  case (17 E v r c)
  then show ?case by (auto simp: Let_def split: prod.splits sum.splits)
next
  case (18 E obj r c)
  then show ?case by simp
next
  case (19 E n v rest obj r c)
  from "19.prems" have nb: "n \<noteq> A" "\<not> binds A v" "\<not> binds_fields A rest" by simp_all
  have 1: "dispatch E (subst A x v) r c = relabel A x (dispatch E v r c)"
    by (rule "19.IH"(1) [OF "19.prems"(1) nb(2)])
  show ?case
  proof (cases "dispatch E v r c")
    case (fields res r' c')
    have cA: "c' A = Some x"
      using ctx_frame(1) [OF nb(2), of E r c] fields "19.prems"(1) by simp
    show ?thesis
    proof (cases res)
      case (Inl e)
      with fields 1 show ?thesis by simp
    next
      case (Inr vv)
      have cA': "(c'(n \<mapsto> vv)) A = Some x" using cA nb(1) by simp
      have 2: "Parse E (subst_fields A x rest) (AList.update n vv obj) r' (c'(n \<mapsto> vv))
          = relabel A x (Parse E rest (AList.update n vv obj) r' (c'(n \<mapsto> vv)))"
        by (rule "19.IH"(2) [OF fields [symmetric] Inr refl cA' nb(3)])
      with fields Inr 1 show ?thesis by simp
    qed
  qed
next
  case (20 E r c)
  then show ?case by simp
next
  case (21 E i "is" r c)
  from "21.prems" have nb: "\<not> binds A i" "\<not> binds_list A is" by simp_all
  have 1: "dispatch E (subst A x i) r c = relabel A x (dispatch E i r c)"
    by (rule "21.IH"(1) [OF "21.prems"(1) nb(1)])
  show ?case
  proof (cases "dispatch E i r c")
    case (fields res r' c')
    have cA: "c' A = Some x"
      using ctx_frame(1) [OF nb(1), of E r c] fields "21.prems"(1) by simp
    show ?thesis
    proof (cases res)
      case (Inl e)
      with fields 1 show ?thesis by simp
    next
      case (Inr y)
      have 2: "ParseGroup_items E (subst_list A x is) r' c' = relabel A x (ParseGroup_items E is r' c')"
        using "21.IH"(2) [of "Inr y" "(r', c')" y r' c'] fields Inr cA nb(2)
        by simp
      with fields Inr 1 show ?thesis
        by (cases "ParseGroup_items E is r' c'") (auto split: sum.splits)
    qed
  qed
next
  case (22 E v r c)
  then show ?case by simp
next
  case (23 E k v r c)
  from "23.prems" have nb: "\<not> binds A v" by simp
  have 1: "dispatch E (subst A x v) r c = relabel A x (dispatch E v r c)"
    by (rule "23.IH"(1) [OF "23.prems"(1) nb])
  show ?case
  proof (cases "dispatch E v r c")
    case (fields res r' c')
    have cA: "c' A = Some x"
      using ctx_frame(1) [OF nb, of E r c] fields "23.prems"(1) by simp
    show ?thesis
    proof (cases res)
      case (Inl e)
      with fields 1 show ?thesis by simp
    next
      case (Inr y)
      have 2: "ParseList_items E k (subst A x v) r' c' = relabel A x (ParseList_items E k v r' c')"
        using "23.IH"(2) [of "Inr y" "(r', c')" y r' c'] fields Inr cA nb
        by simp
      with fields Inr 1 show ?thesis
        by (cases "ParseList_items E k v r' c'") (auto split: sum.splits)
    qed
  qed
qed

text \<open>After a binding of \<open>A\<close>, and until the next one, the context holds that binding.\<close>

lemma bind_all_other: "A \<notin> fst ` set bs \<Longrightarrow> bind_all bs c A = c A"
  by (induction bs arbitrary: c) auto

lemma bind_all_shadow:
  "A \<notin> fst ` set bs' \<Longrightarrow> bind_all (bs @ (A, y) # bs') c A = Some y"
  by (simp add: bind_all_other)

text \<open>The two shapes of the specification's example, for any first field and any names.\<close>

lemma backreference_shapes:
  assumes a: "dispatch E a r c = (Inr x, r1, c1)"
    and b: "dispatch E b r1 (c1(A \<mapsto> x)) = (Inr y, r2, c2)"
    and ne: "A \<noteq> B" "A \<noteq> D" "B \<noteq> D"
  shows "Parse E [(A, a), (B, N_STRUCT [(C, N_VAR A)])] [] r c =
      (Inr (new_obj E [(A, x), (B, new_obj E [(C, x)])]), r1,
       c1(A \<mapsto> x, C \<mapsto> x, B \<mapsto> new_obj E [(C, x)]))
    \<and> Parse E [(A, a), (B, N_STRUCT [(A, b)]), (D, N_VAR A)] [] r c =
      (Inr (new_obj E [(A, x), (B, new_obj E [(A, y)]), (D, y)]), r2,
       c2(A \<mapsto> y, B \<mapsto> new_obj E [(A, y)], D \<mapsto> y))"
  using a b ne by simp

text \<open>
  Claim C6.  Within one call all records share one flat context, whatever the shape of the
  schema.  For every node \<open>v\<close> (a record, or a List, a Group, a variant, a lookahead ... with
  records at any depth), every source and every context: the context after \<open>v\<close> is the
  context before it overwritten by all bindings made inside \<open>v\<close>, in their order, so a
  binding made deep in a sub-record stays visible afterwards; a binding of \<open>A\<close> shadows
  every earlier one until \<open>A\<close> is bound again; and if a name \<open>A\<close> is bound to \<open>x\<close> when \<open>v\<close>
  starts and is not bound again inside \<open>v\<close>, then every Back-reference to \<open>A\<close> inside \<open>v\<close>
  yields \<open>x\<close>: decoding \<open>v\<close> and decoding \<open>v\<close> with these Back-references replaced by the
  constant \<open>x\<close> give the same result, source and context.  The witness holds the
  specification's example (\<open>A\<close> a one-byte integer of value 5, \<open>B.C\<close> a Back-reference to \<open>A\<close>)
  and a record inside a List that binds \<open>A\<close> again, seen by a later field of the parent.
\<close>

theorem flat_namespace:
  "snd (snd (dispatch E v r c)) = bind_all (bindings E v r c) c
   \<and> (A \<notin> fst ` set bs' \<longrightarrow> bind_all (bs @ (A, y) # bs') c A = Some y)
   \<and> (c A = Some x \<and> \<not> binds A v \<longrightarrow>
        dispatch E (subst A x v) r c = relabel A x (dispatch E v r c))"
proof (intro conjI impI)
  show "snd (snd (dispatch E v r c)) = bind_all (bindings E v r c) c"
    by (rule ctx_is_bindings)
next
  assume "A \<notin> fst ` set bs'"
  then show "bind_all (bs @ (A, y) # bs') c A = Some y"
    by (rule bind_all_shadow)
next
  assume "c A = Some x \<and> \<not> binds A v"
  then show "dispatch E (subst A x v) r c = relabel A x (dispatch E v r c)"
    by (simp add: subst_visible)
qed

theorem flat_namespace_witness:
  "[''A'' \<mapsto> VInt 5] ''A'' = Some (VInt 5)
   \<and> \<not> binds ''A'' (N_STRUCT [(''C'', N_VAR ''A'')])
   \<and> dispatch example_cls (N_STRUCT [(''C'', N_CONST (VInt 5))]) \<lparr>buf = [5], pos = 1\<rparr> [''A'' \<mapsto> VInt 5]
     = (Inr (VStruct [(''C'', VInt 5)]), \<lparr>buf = [5], pos = 1\<rparr>, [''A'' \<mapsto> VInt 5, ''C'' \<mapsto> VInt 5])
   \<and> dispatch example_cls (N_STRUCT [(''C'', N_VAR ''A'')]) \<lparr>buf = [5], pos = 1\<rparr> [''A'' \<mapsto> VInt 5]
     = (Inr (VStruct [(''C'', VInt 5)]), \<lparr>buf = [5], pos = 1\<rparr>, [''A'' \<mapsto> VInt 5, ''C'' \<mapsto> VInt 5])
   \<and> bindings example_cls
       (N_STRUCT [(''A'', N_INT (VInt 1) (VBool False) (VStr ''little'')),
                  (''B'', N_STRUCT [(''C'', N_VAR ''A'')])]) \<lparr>buf = [5], pos = 0\<rparr> Map.empty
     = [(''A'', VInt 5), (''C'', VInt 5), (''B'', VStruct [(''C'', VInt 5)])]
   \<and> dispatch example_cls
       (N_STRUCT [(''A'', N_INT (VInt 1) (VBool False) (VStr ''little'')),
                  (''B'', N_STRUCT [(''C'', N_VAR ''A'')])]) \<lparr>buf = [5], pos = 0\<rparr> Map.empty
     = (Inr (VStruct [(''A'', VInt 5), (''B'', VStruct [(''C'', VInt 5)])]), \<lparr>buf = [5], pos = 1\<rparr>,
        [''A'' \<mapsto> VInt 5, ''C'' \<mapsto> VInt 5, ''B'' \<mapsto> VStruct [(''C'', VInt 5)]])
   \<and> ''A'' \<notin> fst ` set [(''B'', VStruct [(''A'', VInt 9)]), (''D'', VInt 9)]
   \<and> bindings example_cls
       (N_STRUCT [(''A'', N_INT (VInt 1) (VBool False) (VStr ''little'')),
                  (''B'', N_LIST (N_CONST (VInt 1))
                            (N_STRUCT [(''A'', N_INT (VInt 1) (VBool False) (VStr ''little''))])),
                  (''D'', N_VAR ''A'')]) \<lparr>buf = [5, 9], pos = 0\<rparr> Map.empty
     = [(''A'', VInt 5), (''A'', VInt 9), (''B'', VList [VStruct [(''A'', VInt 9)]]), (''D'', VInt 9)]
   \<and> dispatch example_cls
       (N_STRUCT [(''A'', N_INT (VInt 1) (VBool False) (VStr ''little'')),
                  (''B'', N_LIST (N_CONST (VInt 1))
                            (N_STRUCT [(''A'', N_INT (VInt 1) (VBool False) (VStr ''little''))])),
                  (''D'', N_VAR ''A'')]) \<lparr>buf = [5, 9], pos = 0\<rparr> Map.empty
     = (Inr (VStruct [(''A'', VInt 5), (''B'', VList [VStruct [(''A'', VInt 9)]]), (''D'', VInt 9)]),
        \<lparr>buf = [5, 9], pos = 2\<rparr>,
        [''A'' \<mapsto> VInt 9, ''B'' \<mapsto> VList [VStruct [(''A'', VInt 9)]], ''D'' \<mapsto> VInt 9])"
  using flat_namespace [of example_cls "N_STRUCT [(''C'', N_VAR ''A'')]" "\<lparr>buf = [5], pos = 1\<rparr>"
      "[''A'' \<mapsto> VInt 5]" "''A''" "[(''B'', VStruct [(''A'', VInt 9)]), (''D'', VInt 9)]"
      "[(''A'', VInt 5)]" "VInt 9" "VInt 5"]
    flat_namespace [of example_cls
      "N_STRUCT [(''A'', N_INT (VInt 1) (VBool False) (VStr ''little'')),
                 (''B'', N_STRUCT [(''C'', N_VAR ''A'')])]" "\<lparr>buf = [5], pos = 0\<rparr>" Map.empty]
    flat_namespace [of example_cls
      "N_STRUCT [(''A'', N_INT (VInt 1) (VBool False) (VStr ''little'')),
                 (''B'', N_LIST (N_CONST (VInt 1))
                           (N_STRUCT [(''A'', N_INT (VInt 1) (VBool False) (VStr ''little''))])),
                 (''D'', N_VAR ''A'')]" "\<lparr>buf = [5, 9], pos = 0\<rparr>" Map.empty]
  by (simp add: new_obj_def example_cls_def leaf_def ParseInt_def read_dyn_def read_def
      from_bytes_def be_value_def Let_def range_len_def)

text \<open>A class that compiles is decoded as its compiled schema is.\<close>

lemma ParseStruct_Class:
  assumes "CompileStruct items order encoding
      (if order2 = VNone then (if order = VStr ''big'' then VStr ''>'' else VStr ''<'') else order2)
      bytesToHex = Inr s"
  shows "ParseStruct E (Class items) src order encoding order2 bytesToHex ctx0
    = ParseStruct E (Compiled s) src order encoding order2 bytesToHex ctx0"
  using assms by (simp add: ParseStruct_def)

text \<open>
  Claim C7, as stated, fails for a call that ends in a decode failure: the exception leaves
  the entry point before the second \<^verbatim>\<open>cls._Ctx = {}\<close>, and the context keeps the bindings
  made before the failure.
\<close>

theorem ParseStruct_failure_keeps_context_counterexample:
  "ParseStruct example_cls (Compiled [(''A'', N_CONST (VInt 1)), (''B'', N_BOOL)]) (Raw [])
     (VStr ''little'') (VStr ''utf-8'') VNone False Map.empty
   = (Inl (RuntimeError N_BOOL (Err EOFError)), \<lparr>buf = [], pos = 0\<rparr>, [''A'' \<mapsto> VInt 1])
   \<and> [''A'' \<mapsto> VInt 1] \<noteq> (Map.empty :: ctx)"
  by (simp add: ParseStruct_def leaf_def ParseBool_def read_def)

text \<open>
  Claim C7, amended.  For every call of the entry point: when the schema is a class that
  does not compile, the call raises before the first clearing and the context stays as
  the previous call left it; otherwise (a compiled schema, or a class that compiles) the
  pass starts from the empty context whatever the previous call left, the context is
  empty again after a pass that returns a Result, and after a pass that raises the context
  and the source are as the failing pass left them.  The context is never cleared between
  a parent record and a nested sub-record: the sub-record is decoded from the context and
  the source the parent has at that point and hands back its own, and the context after
  any routine or record is the context before it overwritten by the bindings made
  meanwhile, so that no binding is ever removed within a pass.
\<close>

theorem ParseStruct_context:
  fixes src :: source and order2 order :: pyval
  defines "r0 \<equiv> (case src of Raw b \<Rightarrow> \<lparr>buf = b, pos = 0\<rparr> | Reader x \<Rightarrow> x)"
    and "o2 \<equiv> (if order2 = VNone then (if order = VStr ''big'' then VStr ''>'' else VStr ''<'') else order2)"
  shows "(CompileStruct items' order encoding o2 bytesToHex = Inl e \<longrightarrow>
        ParseStruct E (Class items') src order encoding order2 bytesToHex ctx0 = (Inl (Err e), r0, ctx0))
   \<and> (CompileStruct items order encoding o2 bytesToHex = Inr s \<longrightarrow>
        ParseStruct E (Class items) src order encoding order2 bytesToHex ctx0 =
          (case Parse E s [] r0 Map.empty of
             (Inl e, r', c') \<Rightarrow> (Inl e, r', c')
           | (Inr v, r', c') \<Rightarrow> (Inr v, r', Map.empty)))
   \<and> ParseStruct E (Compiled s) src order encoding order2 bytesToHex ctx0 =
          (case Parse E s [] r0 Map.empty of
             (Inl e, r', c') \<Rightarrow> (Inl e, r', c')
           | (Inr v, r', c') \<Rightarrow> (Inr v, r', Map.empty))
   \<and> dispatch E (N_STRUCT s') r c = Parse E s' [] r c
   \<and> snd (snd (dispatch E v r c)) = bind_all (bindings E v r c) c
   \<and> snd (snd (Parse E s' obj r c)) = bind_all (Parse_bindings E s' r c) c"
  by (simp add: ParseStruct_def ctx_is_bindings r0_def o2_def)

theorem ParseStruct_context_witness:
  "CompileStruct [(''A'', D_lit VNone)] (VStr ''little'') (VStr ''utf-8'') (VStr ''<'') False = Inl TypeError
   \<and> ParseStruct example_cls (Class [(''A'', D_lit VNone)]) (Raw [1])
       (VStr ''little'') (VStr ''utf-8'') VNone False [''Z'' \<mapsto> VInt 7]
     = (Inl (Err TypeError), \<lparr>buf = [1], pos = 0\<rparr>, [''Z'' \<mapsto> VInt 7])
   \<and> CompileStruct [(''A'', D_lit (VInt 1)), (''B'', D_BOOL)] (VStr ''little'') (VStr ''utf-8'') (VStr ''<'') False
     = Inr [(''A'', N_CONST (VInt 1)), (''B'', N_BOOL)]
   \<and> ParseStruct example_cls (Class [(''A'', D_lit (VInt 1)), (''B'', D_BOOL)]) (Raw [1])
       (VStr ''little'') (VStr ''utf-8'') VNone False [''Z'' \<mapsto> VInt 7]
     = (Inr (VStruct [(''A'', VInt 1), (''B'', VBool True)]), \<lparr>buf = [1], pos = 1\<rparr>, Map.empty)
   \<and> dispatch example_cls (N_STRUCT [(''C'', N_VAR ''Z'')]) \<lparr>buf = [], pos = 0\<rparr> [''Z'' \<mapsto> VInt 7]
     = (Inr (VStruct [(''C'', VInt 7)]), \<lparr>buf = [], pos = 0\<rparr>, [''Z'' \<mapsto> VInt 7, ''C'' \<mapsto> VInt 7])"
  using ParseStruct_context [of "[(''A'', D_lit VNone)]" "VStr ''little''" "VStr ''utf-8''" VNone False
      TypeError example_cls "Raw [1]" "[''Z'' \<mapsto> VInt 7]"
      "[(''A'', D_lit (VInt 1)), (''B'', D_BOOL)]" "[(''A'', N_CONST (VInt 1)), (''B'', N_BOOL)]"
      "[(''C'', N_VAR ''Z'')]" "\<lparr>buf = [], pos = 0\<rparr>" "[''Z'' \<mapsto> VInt 7]"]
  by (simp add: CompileStruct_def dunder_def startswith_def endswith_def ParseStruct_def
      leaf_def ParseBool_def read_def new_obj_def example_cls_def)

end
